theory Spec2Isabelle
  imports Complex_Main "HOL-Library.AList"
begin

section \<open>Python containers\<close>

text \<open>
  A Python \<^verbatim>\<open>dict\<close> keeps its keys in insertion order and the analyzer iterates over
  its dictionaries, so a dictionary is an association list: \<open>map_of\<close> is the lookup,
  \<open>AList.update\<close> is \<^verbatim>\<open>d[k] = v\<close> (in place for a known key, appended for a new one) and
  \<open>AList.delete\<close> is \<^verbatim>\<open>del d[k]\<close> / \<^verbatim>\<open>d.pop(k, None)\<close>.
\<close>

type_synonym ('k, 'v) dict = "('k \<times> 'v) list"

definition keys :: "('k, 'v) dict \<Rightarrow> 'k list" where
  "keys d = map fst d"

text \<open>\<^verbatim>\<open>d.get(k, default)\<close>\<close>

definition get_default :: "('k, 'v) dict \<Rightarrow> 'k \<Rightarrow> 'v \<Rightarrow> 'v" where
  "get_default d k dflt = (case map_of d k of None \<Rightarrow> dflt | Some v \<Rightarrow> v)"

text \<open>
  The slice \<^verbatim>\<open>xs[k:]\<close> for any integer \<open>k\<close>: a negative \<open>k\<close> counts from the end and is
  clamped at the start of the list. The source only writes \<^verbatim>\<open>xs[-n:]\<close>, which is
  \<open>slice_from (- n) xs\<close>; for \<open>n = 0\<close> that is \<^verbatim>\<open>xs[0:]\<close>, the whole list.
\<close>

definition slice_from :: "int \<Rightarrow> 'a list \<Rightarrow> 'a list" where
  "slice_from k xs =
     (if k < 0 then drop (nat (int (length xs) + k)) xs else drop (nat k) xs)"

section \<open>Data model\<close>

text \<open>The bounding box dictionary (and the detector's \<^verbatim>\<open>rect_params\<close>).\<close>

record bbox =
  bb_left :: real
  bb_top :: real
  bb_width :: real
  bb_height :: real

record point =
  pt_x :: real
  pt_y :: real

text \<open>One detected object of a frame (\<^verbatim>\<open>NvDsObjectMeta\<close>), as far as the code reads it.\<close>

record obj_meta =
  object_id :: int
  om_class_id :: int
  om_confidence :: real
  rect_params :: bbox

text \<open>
  A frame (\<^verbatim>\<open>NvDsFrameMeta\<close>). An entry \<open>None\<close> of the object list is a list node
  whose cast raises or yields nothing: the loop body skips it.
\<close>

record frame_meta =
  obj_meta_list :: "obj_meta option list"
  frame_num :: int

text \<open>The \<^verbatim>\<open>track_info\<close> dictionary built by \<^verbatim>\<open>update_tracks\<close>.\<close>

record track_info =
  tracking_id :: int
  class_id :: int
  confidence :: real
  bbox :: bbox
  center :: point
  timestamp :: real
  frame_number :: int

text \<open>One entry of a track's position history.\<close>

record position =
  pos_x :: real
  pos_y :: real
  pos_timestamp :: real
  pos_frame_number :: int

section \<open>Tracking manager\<close>

text \<open>
  The state of \<^verbatim>\<open>TrackingManager\<close>. The path of the tracker configuration file (the
  constructor only checks that it exists), the counter \<^verbatim>\<open>track_id_counter\<close> that no
  method reads, and the manager's own logger are left out.
\<close>

record tracking_manager =
  active_tracks :: "(int, track_info) dict"
  track_history :: "(int, position list) dict"
  lost_tracks :: "int set"
  max_track_history :: int
  track_timeout_seconds :: real

text \<open>The state built by the constructor.\<close>

definition init_tracking_manager :: tracking_manager where
  "init_tracking_manager =
     \<lparr>active_tracks = [], track_history = [], lost_tracks = {},
      max_track_history = 100, track_timeout_seconds = 30\<rparr>"

definition position_of :: "track_info \<Rightarrow> position" where
  "position_of ti =
     \<lparr>pos_x = pt_x (center ti), pos_y = pt_y (center ti),
      pos_timestamp = timestamp ti, pos_frame_number = frame_number ti\<rparr>"

text \<open>
  \<^verbatim>\<open>_update_track\<close>. Updating an existing track overwrites every key of the stored
  dictionary. Appending to the history of an id that has none raises \<^verbatim>\<open>KeyError\<close>,
  which the method catches and logs: the state is left as it is at that point.
\<close>

definition update_track :: "int \<Rightarrow> track_info \<Rightarrow> tracking_manager \<Rightarrow> tracking_manager" where
  "update_track tid ti tm =
     (let tm1 =
        (if tid \<notin> set (keys (active_tracks tm))
         then tm\<lparr>active_tracks := AList.update tid ti (active_tracks tm),
                 track_history := AList.update tid [] (track_history tm),
                 lost_tracks := lost_tracks tm - {tid}\<rparr>
         else tm\<lparr>active_tracks := AList.update tid ti (active_tracks tm)\<rparr>)
      in case map_of (track_history tm1) tid of
           None \<Rightarrow> tm1
         | Some h \<Rightarrow>
             (let h1 = h @ [position_of ti] in
              if int (length h1) > max_track_history tm1
              then tm1\<lparr>track_history :=
                         AList.update tid (slice_from (- max_track_history tm1) h1)
                           (track_history tm1)\<rparr>
              else tm1\<lparr>track_history := AList.update tid h1 (track_history tm1)\<rparr>))"

text \<open>The \<^verbatim>\<open>track_info\<close> that \<^verbatim>\<open>update_tracks\<close> extracts from one object.\<close>

definition extract_track_info :: "obj_meta \<Rightarrow> real \<Rightarrow> int \<Rightarrow> track_info" where
  "extract_track_info om current_time fnum =
     \<lparr>tracking_id = object_id om,
      class_id = om_class_id om,
      confidence = om_confidence om,
      bbox = \<lparr>bb_left = bb_left (rect_params om), bb_top = bb_top (rect_params om),
               bb_width = bb_width (rect_params om), bb_height = bb_height (rect_params om)\<rparr>,
      center = \<lparr>pt_x = bb_left (rect_params om) + bb_width (rect_params om) / 2,
                 pt_y = bb_top (rect_params om) + bb_height (rect_params om) / 2\<rparr>,
      timestamp = current_time,
      frame_number = fnum\<rparr>"

text \<open>
  The \<^verbatim>\<open>while l_obj is not None\<close> loop of \<^verbatim>\<open>update_tracks\<close>: the state and the set
  \<^verbatim>\<open>current_track_ids\<close> are threaded through the objects of the frame.
\<close>

fun process_objects ::
  "obj_meta option list \<Rightarrow> real \<Rightarrow> int \<Rightarrow> tracking_manager \<times> int set
     \<Rightarrow> tracking_manager \<times> int set" where
  "process_objects [] current_time fnum (tm, ids) = (tm, ids)"
| "process_objects (None # objs) current_time fnum (tm, ids) =
     process_objects objs current_time fnum (tm, ids)"
| "process_objects (Some om # objs) current_time fnum (tm, ids) =
     process_objects objs current_time fnum
       (update_track (object_id om) (extract_track_info om current_time fnum) tm,
        insert (object_id om) ids)"

text \<open>
  The loop of \<^verbatim>\<open>_check_lost_tracks\<close> over the ids that are active but not in the
  current frame. A missing key would raise \<^verbatim>\<open>KeyError\<close>, which is caught outside the
  loop: the remaining ids are then not visited.
\<close>

fun lose_tracks :: "int list \<Rightarrow> real \<Rightarrow> tracking_manager \<Rightarrow> tracking_manager" where
  "lose_tracks [] current_time tm = tm"
| "lose_tracks (tid # tids) current_time tm =
     (case map_of (active_tracks tm) tid of
        None \<Rightarrow> tm
      | Some ti \<Rightarrow>
          lose_tracks tids current_time
            (if current_time - timestamp ti > track_timeout_seconds tm
             then tm\<lparr>lost_tracks := insert tid (lost_tracks tm),
                     active_tracks := AList.delete tid (active_tracks tm)\<rparr>
             else tm))"

text \<open>
  \<^verbatim>\<open>_check_lost_tracks\<close>. The source iterates over a Python set; each iteration only
  touches its own id, so the order of the visit does not show in the result and the
  dictionary's own order is taken.
\<close>

definition check_lost_tracks :: "int set \<Rightarrow> real \<Rightarrow> tracking_manager \<Rightarrow> tracking_manager" where
  "check_lost_tracks current_track_ids current_time tm =
     lose_tracks (filter (\<lambda>k. k \<notin> current_track_ids) (keys (active_tracks tm)))
       current_time tm"

text \<open>\<^verbatim>\<open>update_tracks\<close>; \<open>current_time\<close> is the reading of \<^verbatim>\<open>time.time()\<close>.\<close>

definition update_tracks :: "frame_meta \<Rightarrow> real \<Rightarrow> tracking_manager \<Rightarrow> tracking_manager" where
  "update_tracks fm current_time tm =
     (case process_objects (obj_meta_list fm) current_time (frame_num fm) (tm, {}) of
        (tm1, current_track_ids) \<Rightarrow> check_lost_tracks current_track_ids current_time tm1)"

definition get_track_info :: "tracking_manager \<Rightarrow> int \<Rightarrow> track_info option" where
  "get_track_info tm tid = map_of (active_tracks tm) tid"

definition get_active_tracks :: "tracking_manager \<Rightarrow> (int, track_info) dict" where
  "get_active_tracks tm = active_tracks tm"

definition get_track_history :: "tracking_manager \<Rightarrow> int \<Rightarrow> position list" where
  "get_track_history tm tid = get_default (track_history tm) tid []"

text \<open>
  The distance computed in the loop of \<^verbatim>\<open>is_track_static\<close>. Coordinates are Python
  floats; they are taken as real numbers here, so rounding is not part of the model.
\<close>

definition distance :: "position \<Rightarrow> position \<Rightarrow> real" where
  "distance start_pos pos =
     sqrt ((pos_x pos - pos_x start_pos)\<^sup>2 + (pos_y pos - pos_y start_pos)\<^sup>2)"

definition is_track_static :: "tracking_manager \<Rightarrow> int \<Rightarrow> real \<Rightarrow> int \<Rightarrow> bool" where
  "is_track_static tm tid threshold_pixels min_frames =
     (case map_of (track_history tm) tid of
        None \<Rightarrow> False
      | Some history \<Rightarrow>
          if int (length history) < min_frames then False
          else (case slice_from (- min_frames) history of
                  [] \<Rightarrow> False
                | start_pos # rest \<Rightarrow>
                    foldl (\<lambda>max_distance pos. max max_distance (distance start_pos pos)) 0 rest
                      \<le> threshold_pixels))"

definition get_track_duration :: "tracking_manager \<Rightarrow> int \<Rightarrow> real option" where
  "get_track_duration tm tid =
     (case map_of (track_history tm) tid of
        None \<Rightarrow> None
      | Some history \<Rightarrow>
          if length history < 2 then Some 0
          else Some (pos_timestamp (last history) - pos_timestamp (hd history)))"

section \<open>Behavior analyzer\<close>

datatype event_type = object_appeared | object_static | object_moving

record metadata =
  md_duration :: "real option"
  md_bbox :: bbox
  md_frame_number :: int

text \<open>
  \<^verbatim>\<open>BehaviorEvent\<close>. The \<^verbatim>\<open>event_id\<close> is a fresh random UUID and is left out; the
  \<^verbatim>\<open>timestamp\<close> is kept as the clock reading that the source renders in ISO format.
\<close>

record behavior_event =
  event_type :: event_type
  ev_timestamp :: real
  ev_tracking_id :: int
  class_name :: string
  ev_position :: point
  metadata :: metadata
  ev_confidence :: real

record config =
  static_threshold_seconds :: real
  position_tolerance_pixels :: real
  debounce_seconds :: real
  min_confidence :: real

definition default_config :: config where
  "default_config =
     \<lparr>static_threshold_seconds = 30, position_tolerance_pixels = 10,
      debounce_seconds = 2, min_confidence = 1 / 2\<rparr>"

text \<open>An entry of \<^verbatim>\<open>tracked_objects\<close>: a copy of the track with \<^verbatim>\<open>last_seen\<close> added.\<close>

record obj_state =
  os_info :: track_info
  last_seen :: real

text \<open>An instance of Python's \<^verbatim>\<open>Exception\<close>, as raised by a consumer callback.\<close>

datatype exn = Exception string

text \<open>The lines that \<^verbatim>\<open>_emit_event\<close> writes to the logger.\<close>

datatype log_line =
    Generated_event event_type int
  | Error_in_event_callback exn
  | Error_emitting_event exn

text \<open>
  A consumer callback acts on the world outside the analyzer (type \<open>'w\<close>) and either
  returns (\<open>None\<close>) or raises (\<open>Some e\<close>); what it did before raising stays done.
\<close>

type_synonym 'w callback = "behavior_event \<Rightarrow> 'w \<Rightarrow> exn option \<times> 'w"

text \<open>
  The state of \<^verbatim>\<open>BehaviorAnalyzer\<close>, with the lines written by \<^verbatim>\<open>_emit_event\<close> in
  \<open>logger\<close> and the world the callbacks act on in \<open>outside\<close>.
\<close>

record 'w behavior_analyzer =
  config :: config
  tracked_objects :: "(int, obj_state) dict"
  recent_events :: "behavior_event list"
  event_callbacks :: "'w callback list"
  last_appearance_events :: "(int, real) dict"
  last_static_events :: "(int, real) dict"
  last_moving_events :: "(int, real) dict"
  logger :: "log_line list"
  outside :: 'w

text \<open>The constructor: the given configuration, and the world as it is.\<close>

definition init_behavior_analyzer :: "config \<Rightarrow> 'w \<Rightarrow> 'w behavior_analyzer" where
  "init_behavior_analyzer cfg w =
     \<lparr>config = cfg, tracked_objects = [], recent_events = [], event_callbacks = [],
      last_appearance_events = [], last_static_events = [], last_moving_events = [],
      logger = [], outside = w\<rparr>"


subsection \<open>Class names\<close>

definition coco_class_names :: "(int, string) dict" where
  "coco_class_names =
     [(0, ''person''), (1, ''bicycle''), (2, ''car''), (3, ''motorcycle''), (4, ''airplane''),
      (5, ''bus''), (6, ''train''), (7, ''truck''), (8, ''boat''), (9, ''traffic light''),
      (10, ''fire hydrant''), (11, ''stop sign''), (12, ''parking meter''), (13, ''bench''),
      (14, ''bird''), (15, ''cat''), (16, ''dog''), (17, ''horse''), (18, ''sheep''), (19, ''cow''),
      (20, ''elephant''), (21, ''bear''), (22, ''zebra''), (23, ''giraffe''), (24, ''backpack''),
      (25, ''umbrella''), (26, ''handbag''), (27, ''tie''), (28, ''suitcase''), (29, ''frisbee''),
      (30, ''skis''), (31, ''snowboard''), (32, ''sports ball''), (33, ''kite''),
      (34, ''baseball bat''), (35, ''baseball glove''), (36, ''skateboard''), (37, ''surfboard''),
      (38, ''tennis racket''), (39, ''bottle''), (40, ''wine glass''), (41, ''cup''), (42, ''fork''),
      (43, ''knife''), (44, ''spoon''), (45, ''bowl''), (46, ''banana''), (47, ''apple''),
      (48, ''sandwich''), (49, ''orange''), (50, ''broccoli''), (51, ''carrot''), (52, ''hot dog''),
      (53, ''pizza''), (54, ''donut''), (55, ''cake''), (56, ''chair''), (57, ''couch''),
      (58, ''potted plant''), (59, ''bed''), (60, ''dining table''), (61, ''toilet''), (62, ''tv''),
      (63, ''laptop''), (64, ''mouse''), (65, ''remote''), (66, ''keyboard''), (67, ''cell phone''),
      (68, ''microwave''), (69, ''oven''), (70, ''toaster''), (71, ''sink''),
      (72, ''refrigerator''), (73, ''book''), (74, ''clock''), (75, ''vase''), (76, ''scissors''),
      (77, ''teddy bear''), (78, ''hair drier''), (79, ''toothbrush'')]"

text \<open>Python's \<^verbatim>\<open>str\<close> of an integer, for the placeholder name of an unknown class.\<close>

function str_nat :: "nat \<Rightarrow> string" where
  "str_nat n =
     (if n < 10 then [char_of (48 + n)] else str_nat (n div 10) @ [char_of (48 + n mod 10)])"
  by pat_completeness auto
termination
  by (relation "measure (\<lambda>n. n)") auto

definition str_int :: "int \<Rightarrow> string" where
  "str_int i = (if i < 0 then CHR ''-'' # str_nat (nat (- i)) else str_nat (nat i))"

definition get_class_name :: "int \<Rightarrow> string" where
  "get_class_name cid = get_default coco_class_names cid (''unknown_class_'' @ str_int cid)"

subsection \<open>Events\<close>

definition create_appearance_event :: "int \<Rightarrow> track_info \<Rightarrow> real \<Rightarrow> behavior_event" where
  "create_appearance_event tid ti ts =
     \<lparr>event_type = object_appeared, ev_timestamp = ts, ev_tracking_id = tid,
      class_name = get_class_name (class_id ti),
      ev_position = \<lparr>pt_x = pt_x (center ti), pt_y = pt_y (center ti)\<rparr>,
      metadata = \<lparr>md_duration = None, md_bbox = bbox ti, md_frame_number = frame_number ti\<rparr>,
      ev_confidence = confidence ti\<rparr>"

definition create_static_event :: "int \<Rightarrow> track_info \<Rightarrow> real \<Rightarrow> real \<Rightarrow> behavior_event" where
  "create_static_event tid ti ts duration =
     \<lparr>event_type = object_static, ev_timestamp = ts, ev_tracking_id = tid,
      class_name = get_class_name (class_id ti),
      ev_position = \<lparr>pt_x = pt_x (center ti), pt_y = pt_y (center ti)\<rparr>,
      metadata = \<lparr>md_duration = Some duration, md_bbox = bbox ti,
                   md_frame_number = frame_number ti\<rparr>,
      ev_confidence = confidence ti\<rparr>"

definition create_moving_event :: "int \<Rightarrow> track_info \<Rightarrow> real \<Rightarrow> behavior_event" where
  "create_moving_event tid ti ts =
     \<lparr>event_type = object_moving, ev_timestamp = ts, ev_tracking_id = tid,
      class_name = get_class_name (class_id ti),
      ev_position = \<lparr>pt_x = pt_x (center ti), pt_y = pt_y (center ti)\<rparr>,
      metadata = \<lparr>md_duration = None, md_bbox = bbox ti, md_frame_number = frame_number ti\<rparr>,
      ev_confidence = confidence ti\<rparr>"

text \<open>
  The loop of \<^verbatim>\<open>_emit_event\<close> over the registered callbacks. Its body is a
  \<^verbatim>\<open>try\<close> whose handler logs the exception and goes on. The first component of the
  result is the exception that leaves the loop, if any.
\<close>

fun call_callbacks ::
  "'w callback list \<Rightarrow> behavior_event \<Rightarrow> 'w behavior_analyzer
     \<Rightarrow> exn option \<times> 'w behavior_analyzer" where
  "call_callbacks [] event s = (None, s)"
| "call_callbacks (callback # callbacks) event s =
     (case callback event (outside s) of
        (None, w) \<Rightarrow> call_callbacks callbacks event (s\<lparr>outside := w\<rparr>)
      | (Some e, w) \<Rightarrow>
          call_callbacks callbacks event
            (s\<lparr>outside := w, logger := logger s @ [Error_in_event_callback e]\<rparr>))"

text \<open>
  \<^verbatim>\<open>_emit_event\<close>: the event is appended to the buffer first, then delivered. The
  outer handler turns whatever leaves the loop into a log line.
\<close>

definition emit_event :: "behavior_event \<Rightarrow> 'w behavior_analyzer \<Rightarrow> 'w behavior_analyzer" where
  "emit_event event s =
     (let s1 = s\<lparr>recent_events := recent_events s @ [event],
                  logger := logger s @ [Generated_event (event_type event) (ev_tracking_id event)]\<rparr>
      in case call_callbacks (event_callbacks s1) event s1 of
           (None, s2) \<Rightarrow> s2
         | (Some e, s2) \<Rightarrow> s2\<lparr>logger := logger s2 @ [Error_emitting_event e]\<rparr>)"

subsection \<open>The checks of one frame\<close>

text \<open>The body of the loop of \<^verbatim>\<open>_check_object_appearances\<close>.\<close>

definition appearance_step ::
  "real \<Rightarrow> int \<times> track_info \<Rightarrow> 'w behavior_analyzer \<Rightarrow> 'w behavior_analyzer" where
  "appearance_step current_time item s =
     (case item of (tid, ti) \<Rightarrow>
        if confidence ti < min_confidence (config s) then s
        else if tid \<notin> set (keys (tracked_objects s)) then
          (if current_time - get_default (last_appearance_events s) tid 0
                < debounce_seconds (config s) then s
           else (let s1 = emit_event (create_appearance_event tid ti current_time) s
                 in s1\<lparr>last_appearance_events :=
                          AList.update tid current_time (last_appearance_events s1)\<rparr>))
        else s)"

definition check_object_appearances ::
  "(int, track_info) dict \<Rightarrow> real \<Rightarrow> 'w behavior_analyzer \<Rightarrow> 'w behavior_analyzer" where
  "check_object_appearances current_tracks current_time s =
     fold (appearance_step current_time) current_tracks s"

text \<open>
  The body of the loop of \<^verbatim>\<open>_check_static_objects\<close>. The test
  \<^verbatim>\<open>duration and duration >= ...\<close> fails for \<^verbatim>\<open>None\<close> and for \<^verbatim>\<open>0.0\<close>.
\<close>

definition static_step ::
  "tracking_manager \<Rightarrow> real \<Rightarrow> int \<Rightarrow> 'w behavior_analyzer \<Rightarrow> 'w behavior_analyzer" where
  "static_step tm current_time tid s =
     (case get_track_info tm tid of
        None \<Rightarrow> s
      | Some ti \<Rightarrow>
          if confidence ti < min_confidence (config s) then s
          else if is_track_static tm tid (position_tolerance_pixels (config s)) 30 then
            (if current_time - get_default (last_static_events s) tid 0
                  < static_threshold_seconds (config s) then s
             else (case get_track_duration tm tid of
                     None \<Rightarrow> s
                   | Some duration \<Rightarrow>
                       if duration \<noteq> 0 \<and> duration \<ge> static_threshold_seconds (config s) then
                         (let s1 = emit_event
                                     (create_static_event tid ti current_time duration) s
                          in s1\<lparr>last_static_events :=
                                   AList.update tid current_time (last_static_events s1)\<rparr>)
                       else s))
          else s)"

definition check_static_objects ::
  "tracking_manager \<Rightarrow> real \<Rightarrow> 'w behavior_analyzer \<Rightarrow> 'w behavior_analyzer" where
  "check_static_objects tm current_time s =
     fold (static_step tm current_time) (keys (get_active_tracks tm)) s"

text \<open>The body of the loop of \<^verbatim>\<open>_check_moving_objects\<close>.\<close>

definition moving_step ::
  "tracking_manager \<Rightarrow> real \<Rightarrow> int \<Rightarrow> 'w behavior_analyzer \<Rightarrow> 'w behavior_analyzer" where
  "moving_step tm current_time tid s =
     (case get_track_info tm tid of
        None \<Rightarrow> s
      | Some ti \<Rightarrow>
          if confidence ti < min_confidence (config s) then s
          else if tid \<in> set (keys (last_static_events s)) then
            (if \<not> is_track_static tm tid (position_tolerance_pixels (config s)) 10 then
               (if current_time - get_default (last_moving_events s) tid 0
                     < debounce_seconds (config s) then s
                else (let s1 = emit_event (create_moving_event tid ti current_time) s
                      in s1\<lparr>last_moving_events :=
                               AList.update tid current_time (last_moving_events s1),
                             last_static_events :=
                               AList.delete tid (last_static_events s1)\<rparr>))
             else s)
          else s)"

definition check_moving_objects ::
  "tracking_manager \<Rightarrow> real \<Rightarrow> 'w behavior_analyzer \<Rightarrow> 'w behavior_analyzer" where
  "check_moving_objects tm current_time s =
     fold (moving_step tm current_time) (keys (get_active_tracks tm)) s"

text \<open>
  \<^verbatim>\<open>_update_object_states\<close>: every current track is copied into
  \<^verbatim>\<open>tracked_objects\<close> with \<^verbatim>\<open>last_seen\<close> set; then the objects that are not current and
  were last seen more than 10 seconds ago are collected, and removed together with
  their debounce entries.
\<close>

definition remember_step ::
  "real \<Rightarrow> int \<times> track_info \<Rightarrow> 'w behavior_analyzer \<Rightarrow> 'w behavior_analyzer" where
  "remember_step current_time item s =
     (case item of (tid, ti) \<Rightarrow>
        s\<lparr>tracked_objects :=
            AList.update tid \<lparr>os_info = ti, last_seen = current_time\<rparr> (tracked_objects s)\<rparr>)"

definition inactive_objects ::
  "(int, track_info) dict \<Rightarrow> real \<Rightarrow> 'w behavior_analyzer \<Rightarrow> int list" where
  "inactive_objects current_tracks current_time s =
     map fst (filter (\<lambda>(tid, obj_state).
                 tid \<notin> set (keys current_tracks) \<and> current_time - last_seen obj_state > 10)
               (tracked_objects s))"

definition forget_step :: "int \<Rightarrow> 'w behavior_analyzer \<Rightarrow> 'w behavior_analyzer" where
  "forget_step tid s =
     s\<lparr>tracked_objects := AList.delete tid (tracked_objects s),
       last_appearance_events := AList.delete tid (last_appearance_events s),
       last_static_events := AList.delete tid (last_static_events s),
       last_moving_events := AList.delete tid (last_moving_events s)\<rparr>"

definition update_object_states ::
  "(int, track_info) dict \<Rightarrow> real \<Rightarrow> 'w behavior_analyzer \<Rightarrow> 'w behavior_analyzer" where
  "update_object_states current_tracks current_time s =
     (let s1 = fold (remember_step current_time) current_tracks s
      in fold forget_step (inactive_objects current_tracks current_time s1) s1)"

definition cleanup_old_events :: "int \<Rightarrow> 'w behavior_analyzer \<Rightarrow> 'w behavior_analyzer" where
  "cleanup_old_events max_events s =
     (if int (length (recent_events s)) > max_events
      then s\<lparr>recent_events := slice_from (- max_events) (recent_events s)\<rparr>
      else s)"

text \<open>\<^verbatim>\<open>analyze_frame\<close>; \<open>current_time\<close> is its reading of \<^verbatim>\<open>time.time()\<close>.\<close>

definition analyze_frame ::
  "tracking_manager \<Rightarrow> real \<Rightarrow> 'w behavior_analyzer \<Rightarrow> 'w behavior_analyzer" where
  "analyze_frame tm current_time s =
     (let current_tracks = get_active_tracks tm;
          s1 = check_object_appearances current_tracks current_time s;
          s2 = check_static_objects tm current_time s1;
          s3 = check_moving_objects tm current_time s2;
          s4 = update_object_states current_tracks current_time s3
      in cleanup_old_events 1000 s4)"

definition get_recent_events :: "'w behavior_analyzer \<Rightarrow> int \<Rightarrow> behavior_event list" where
  "get_recent_events s limit = slice_from (- limit) (recent_events s)"

record statistics =
  st_tracked_objects :: nat
  st_recent_events :: nat
  appearance_events_tracked :: nat
  static_events_tracked :: nat
  moving_events_tracked :: nat
  st_config :: config

definition get_statistics :: "'w behavior_analyzer \<Rightarrow> statistics" where
  "get_statistics s =
     \<lparr>st_tracked_objects = length (tracked_objects s),
      st_recent_events = length (recent_events s),
      appearance_events_tracked = length (last_appearance_events s),
      static_events_tracked = length (last_static_events s),
      moving_events_tracked = length (last_moving_events s),
      st_config = config s\<rparr>"

section \<open>Notions used in the statements\<close>

text \<open>The most recent \<open>n\<close> entries of a sequence, in their order.\<close>

definition most_recent :: "nat \<Rightarrow> 'a list \<Rightarrow> 'a list" where
  "most_recent n xs = drop (length xs - n) xs"


text \<open>The readable objects of a frame, and the ids observed in it.\<close>

primrec present_objects :: "obj_meta option list \<Rightarrow> obj_meta list" where
  "present_objects [] = []"
| "present_objects (x # xs) =
     (case x of None \<Rightarrow> present_objects xs | Some om \<Rightarrow> om # present_objects xs)"

definition frame_ids :: "frame_meta \<Rightarrow> int set" where
  "frame_ids fm = object_id ` set (present_objects (obj_meta_list fm))"

text \<open>The eviction test of \<^verbatim>\<open>_check_lost_tracks\<close> on one track.\<close>

definition stale :: "tracking_manager \<Rightarrow> real \<Rightarrow> track_info \<Rightarrow> bool" where
  "stale tm current_time ti \<longleftrightarrow> current_time - timestamp ti > track_timeout_seconds tm"

text \<open>
  The history that \<^verbatim>\<open>_update_track\<close> appends to: the stored one for an active id, a
  fresh empty one for an id that is not active.
\<close>

definition prior_history :: "tracking_manager \<Rightarrow> int \<Rightarrow> position list option" where
  "prior_history tm tid =
     (if tid \<in> set (keys (active_tracks tm)) then map_of (track_history tm) tid else Some [])"

definition history_bounded :: "tracking_manager \<Rightarrow> bool" where
  "history_bounded tm \<longleftrightarrow>
     (\<forall>(tid, h) \<in> set (track_history tm). int (length h) \<le> max_track_history tm)"

text \<open>A sequence of ingested frames, each with its clock reading.\<close>

definition ingest_frames ::
  "(frame_meta \<times> real) list \<Rightarrow> tracking_manager \<Rightarrow> tracking_manager" where
  "ingest_frames fs tm = fold (\<lambda>(fm, current_time). update_tracks fm current_time) fs tm"

text \<open>Every active track has a history entry, as the constructor and the updates ensure.\<close>

definition tracks_have_history :: "tracking_manager \<Rightarrow> bool" where
  "tracks_have_history tm \<longleftrightarrow> set (keys (active_tracks tm)) \<subseteq> set (keys (track_history tm))"

text \<open>The history of \<open>tid\<close> ends with a sample taken at time \<open>t\<close>.\<close>

definition sampled_at :: "tracking_manager \<Rightarrow> int \<Rightarrow> real \<Rightarrow> bool" where
  "sampled_at tm tid t \<longleftrightarrow>
     (case map_of (track_history tm) tid of
        None \<Rightarrow> False
      | Some h \<Rightarrow> h \<noteq> [] \<and> pos_timestamp (last h) = t)"

text \<open>
  Delivery as the specification words it: every registered callback is called exactly
  once with the event, in registration order, whether or not an earlier one raised;
  \<open>failures\<close> are the exceptions raised on the way.
\<close>

definition deliver_once :: "'w callback list \<Rightarrow> behavior_event \<Rightarrow> 'w \<Rightarrow> 'w" where
  "deliver_once callbacks event w = fold (\<lambda>callback w. snd (callback event w)) callbacks w"

fun failures :: "'w callback list \<Rightarrow> behavior_event \<Rightarrow> 'w \<Rightarrow> exn list" where
  "failures [] event w = []"
| "failures (callback # callbacks) event w =
     (case callback event w of
        (None, w') \<Rightarrow> failures callbacks event w'
      | (Some e, w') \<Rightarrow> e # failures callbacks event w')"

section \<open>Example inputs\<close>

text \<open>A detection with a 10 by 10 box centred at \<open>(cx, cy)\<close>.\<close>

definition example_object :: "int \<Rightarrow> real \<Rightarrow> real \<Rightarrow> real \<Rightarrow> obj_meta" where
  "example_object tid conf cx cy =
     \<lparr>object_id = tid, om_class_id = 0, om_confidence = conf,
      rect_params = \<lparr>bb_left = cx - 5, bb_top = cy - 5, bb_width = 10, bb_height = 10\<rparr>\<rparr>"

definition example_frame :: "obj_meta list \<Rightarrow> int \<Rightarrow> frame_meta" where
  "example_frame oms n = \<lparr>obj_meta_list = map Some oms, frame_num = n\<rparr>"

definition example_position :: "real \<Rightarrow> real \<Rightarrow> real \<Rightarrow> int \<Rightarrow> position" where
  "example_position cx cy t n = \<lparr>pos_x = cx, pos_y = cy, pos_timestamp = t, pos_frame_number = n\<rparr>"

text \<open>Id 7 seen at \<open>(0, 0)\<close> and one second later at \<open>(100, 0)\<close>.\<close>

definition jump_store :: tracking_manager where
  "jump_store =
     update_tracks (example_frame [example_object 7 (9/10) 100 0] 1) 1
       (update_tracks (example_frame [example_object 7 (9/10) 0 0] 0) 0 init_tracking_manager)"


text \<open>The same store as \<open>jump_store\<close> with a history cap of 2.\<close>

definition capped_store :: tracking_manager where
  "capped_store = jump_store\<lparr>max_track_history := 2\<rparr>"

text \<open>A record with negative dimensions and a confidence above 1.\<close>

definition bad_object :: obj_meta where
  "bad_object =
     \<lparr>object_id = 9, om_class_id = 0, om_confidence = 3 / 2,
      rect_params = \<lparr>bb_left = 0, bb_top = 0, bb_width = - 10, bb_height = - 10\<rparr>\<rparr>"

definition example_event :: "int \<Rightarrow> behavior_event" where
  "example_event n =
     create_appearance_event n (extract_track_info (example_object n (9/10) 0 0) 0 0) 0"

text \<open>An analyzer without callbacks that has emitted three events.\<close>

definition buffer_state :: "unit behavior_analyzer" where
  "buffer_state =
     emit_event (example_event 3) (emit_event (example_event 2)
       (emit_event (example_event 1) (init_behavior_analyzer default_config ())))"




section \<open>Runs and traces\<close>

text \<open>
  The number of \<^verbatim>\<open>object_appeared\<close> events logged for an id so far.
\<close>

definition appeared_count :: "int \<Rightarrow> 'w behavior_analyzer \<Rightarrow> nat" where
  "appeared_count tid s = count_list (logger s) (Generated_event object_appeared tid)"


text \<open>
  One frame as the pipeline hands it over: the frame, the clock reading of
  \<^verbatim>\<open>update_tracks\<close> and the clock reading of \<^verbatim>\<open>analyze_frame\<close>.
\<close>

record tick =
  tick_frame :: frame_meta
  tick_track_time :: real
  tick_analyze_time :: real

text \<open>
  One frame of the pipeline: the tracking probe, then the behavior probe.
\<close>

definition process_frame ::
  "tick \<Rightarrow> tracking_manager \<times> 'w behavior_analyzer \<Rightarrow> tracking_manager \<times> 'w behavior_analyzer" where
  "process_frame f st =
     (case st of (tm, s) \<Rightarrow>
        (let tm1 = update_tracks (tick_frame f) (tick_track_time f) tm
         in (tm1, analyze_frame tm1 (tick_analyze_time f) s)))"

definition run_frames ::
  "tick list \<Rightarrow> tracking_manager \<times> 'w behavior_analyzer \<Rightarrow> tracking_manager \<times> 'w behavior_analyzer" where
  "run_frames fs st = fold process_frame fs st"


text \<open>
  The bookkeeping of "currently flagged static": the id has an entry in
  \<^verbatim>\<open>last_static_events\<close>.
\<close>

definition flagged_static :: "int \<Rightarrow> 'w behavior_analyzer \<Rightarrow> bool" where
  "flagged_static tid s \<longleftrightarrow> tid \<in> set (keys (last_static_events s))"

text \<open>
  A log in which every \<^verbatim>\<open>object_moving\<close> line of an id comes while the id is flagged:
  an \<^verbatim>\<open>object_static\<close> line of the id sets the flag, an \<^verbatim>\<open>object_moving\<close> line clears it.
  \<open>flagged_after\<close> is the flag at the end of the log.
\<close>

fun moving_while_flagged :: "int \<Rightarrow> bool \<Rightarrow> log_line list \<Rightarrow> bool" where
  "moving_while_flagged tid flagged [] = True"
| "moving_while_flagged tid flagged (l # ls) =
     (if l = Generated_event object_moving tid then flagged \<and> moving_while_flagged tid False ls
      else if l = Generated_event object_static tid then moving_while_flagged tid True ls
      else moving_while_flagged tid flagged ls)"

fun flagged_after :: "int \<Rightarrow> bool \<Rightarrow> log_line list \<Rightarrow> bool" where
  "flagged_after tid flagged [] = flagged"
| "flagged_after tid flagged (l # ls) =
     (if l = Generated_event object_moving tid then flagged_after tid False ls
      else if l = Generated_event object_static tid then flagged_after tid True ls
      else flagged_after tid flagged ls)"




section \<open>Example runs\<close>

text \<open>A frame whose two clock readings agree.\<close>

definition example_tick :: "obj_meta list \<Rightarrow> int \<Rightarrow> real \<Rightarrow> tick" where
  "example_tick oms n t =
     \<lparr>tick_frame = example_frame oms n, tick_track_time = t, tick_analyze_time = t\<rparr>"


text \<open>Id 9 is seen once; two frames without it follow, 30 and 31 seconds later.\<close>

definition departure_ticks :: "tick list" where
  "departure_ticks =
     [example_tick [example_object 9 (9/10) 0 0] 0 1700000000,
      example_tick [] 1 1700000030,
      example_tick [] 2 1700000031]"

definition example_track :: "int \<Rightarrow> real \<Rightarrow> int \<Rightarrow> track_info" where
  "example_track tid t n = extract_track_info (example_object tid (9/10) 0 0) t n"

text \<open>The store after the first of these frames, and after the third.\<close>

definition store_1 :: tracking_manager where
  "store_1 =
     \<lparr>active_tracks = [(9, example_track 9 1700000000 0)],
      track_history = [(9, [example_position 0 0 1700000000 0])],
      lost_tracks = {}, max_track_history = 100, track_timeout_seconds = 30\<rparr>"

definition store_3 :: tracking_manager where
  "store_3 =
     \<lparr>active_tracks = [],
      track_history = [(9, [example_position 0 0 1700000000 0])],
      lost_tracks = {9}, max_track_history = 100, track_timeout_seconds = 30\<rparr>"

text \<open>The analyzer after the first of these frames, with id 9 last seen at \<open>t\<close>.\<close>

definition analyzer_at :: "real \<Rightarrow> unit behavior_analyzer" where
  "analyzer_at t =
     \<lparr>config = default_config,
      tracked_objects = [(9, \<lparr>os_info = example_track 9 1700000000 0, last_seen = t\<rparr>)],
      recent_events = [create_appearance_event 9 (example_track 9 1700000000 0) 1700000000],
      event_callbacks = [],
      last_appearance_events = [(9, 1700000000)],
      last_static_events = [], last_moving_events = [],
      logger = [Generated_event object_appeared 9], outside = ()\<rparr>"


section \<open>Properties\<close>

subsection \<open>Containers and the update of one track\<close>

lemma slice_from_neg: "0 < n \<Longrightarrow> slice_from (- n) xs = drop (length xs - nat n) xs"
  by (simp add: slice_from_def nat_diff_distrib')

lemma in_keys_iff: "k \<in> set (keys d) \<longleftrightarrow> map_of d k \<noteq> None"
  by (simp add: keys_def map_of_eq_None_iff)

lemma keys_update: "set (keys (AList.update k v d)) = insert k (set (keys d))"
  using dom_update [of k v d] by (simp add: keys_def)

lemma keys_delete: "set (keys (AList.delete k d)) = set (keys d) - {k}"
  by (simp add: keys_def delete_keys)

lemma distinct_keys_update: "distinct (keys d) \<Longrightarrow> distinct (keys (AList.update k v d))"
  by (simp add: keys_def distinct_update)

lemma distinct_keys_delete: "distinct (keys d) \<Longrightarrow> distinct (keys (AList.delete k d))"
  by (simp add: keys_def distinct_delete)

lemma update_track_active:
  "active_tracks (update_track tid ti tm) = AList.update tid ti (active_tracks tm)"
  by (simp add: update_track_def Let_def split: option.splits)

lemma update_track_cap [simp]:
  "max_track_history (update_track tid ti tm) = max_track_history tm"
  by (simp add: update_track_def Let_def split: option.splits)

lemma update_track_timeout [simp]:
  "track_timeout_seconds (update_track tid ti tm) = track_timeout_seconds tm"
  by (simp add: update_track_def Let_def split: option.splits)

lemma update_track_history_other:
  "tid' \<noteq> tid \<Longrightarrow>
   map_of (track_history (update_track tid ti tm)) tid' = map_of (track_history tm) tid'"
  by (simp add: update_track_def Let_def update_conv' split: option.splits)

lemma update_track_history_same:
  "map_of (track_history (update_track tid ti tm)) tid =
     (case prior_history tm tid of
        None \<Rightarrow> None
      | Some h \<Rightarrow>
          Some (if int (length (h @ [position_of ti])) > max_track_history tm
                then slice_from (- max_track_history tm) (h @ [position_of ti])
                else h @ [position_of ti]))"
  by (simp add: update_track_def Let_def update_conv' prior_history_def split: option.splits)

lemma update_track_history_capped:
  assumes "1 \<le> max_track_history tm"
      and "map_of (track_history (update_track tid ti tm)) tid = Some h'"
  shows "\<exists>h. prior_history tm tid = Some h \<and>
             h' = most_recent (nat (max_track_history tm)) (h @ [position_of ti]) \<and>
             int (length h') \<le> max_track_history tm"
proof -
  from assms(2) obtain h where h: "prior_history tm tid = Some h"
    by (auto simp: update_track_history_same split: option.splits)
  let ?h1 = "h @ [position_of ti]"
  from assms h have h': "h' = (if int (length ?h1) > max_track_history tm
                then slice_from (- max_track_history tm) ?h1 else ?h1)"
    by (simp add: update_track_history_same)
  from assms(1) have sl: "slice_from (- max_track_history tm) ?h1 = most_recent (nat (max_track_history tm)) ?h1"
    by (simp add: slice_from_neg most_recent_def)
  have "h' = most_recent (nat (max_track_history tm)) ?h1"
  proof (cases "int (length ?h1) > max_track_history tm")
    case True
    with h' sl show ?thesis by simp
  next
    case False
    then have "length ?h1 - nat (max_track_history tm) = 0" by simp
    with h' False show ?thesis by (simp add: most_recent_def)
  qed
  moreover from this assms(1) have "int (length h') \<le> max_track_history tm"
    by (simp add: most_recent_def)
  ultimately show ?thesis using h by blast
qed

subsection \<open>The object loop\<close>

lemma process_objects_ids:
  "snd (process_objects objs t n (tm, ids)) = ids \<union> object_id ` set (present_objects objs)"
  by (induction objs t n "(tm, ids)" arbitrary: tm ids rule: process_objects.induct) auto

lemma process_objects_cap [simp]:
  "max_track_history (fst (process_objects objs t n (tm, ids))) = max_track_history tm"
  by (induction objs t n "(tm, ids)" arbitrary: tm ids rule: process_objects.induct) auto

lemma process_objects_timeout [simp]:
  "track_timeout_seconds (fst (process_objects objs t n (tm, ids))) = track_timeout_seconds tm"
  by (induction objs t n "(tm, ids)" arbitrary: tm ids rule: process_objects.induct) auto

lemma process_objects_distinct:
  "distinct (keys (active_tracks tm)) \<Longrightarrow>
   distinct (keys (active_tracks (fst (process_objects objs t n (tm, ids)))))"
  by (induction objs t n "(tm, ids)" arbitrary: tm ids rule: process_objects.induct)
     (auto simp: update_track_active distinct_keys_update)

lemma process_objects_active_other:
  "tid \<notin> object_id ` set (present_objects objs) \<Longrightarrow>
   map_of (active_tracks (fst (process_objects objs t n (tm, ids)))) tid =
   map_of (active_tracks tm) tid"
  by (induction objs t n "(tm, ids)" arbitrary: tm ids rule: process_objects.induct)
     (auto simp: update_track_active update_conv')

lemma process_objects_history_other:
  "tid \<notin> object_id ` set (present_objects objs) \<Longrightarrow>
   map_of (track_history (fst (process_objects objs t n (tm, ids)))) tid =
   map_of (track_history tm) tid"
  by (induction objs t n "(tm, ids)" arbitrary: tm ids rule: process_objects.induct)
     (auto simp: update_track_history_other)

subsection \<open>Eviction\<close>

lemma lose_tracks_history [simp]:
  "track_history (lose_tracks ids now tm) = track_history tm"
  by (induction ids now tm rule: lose_tracks.induct) (auto split: option.splits)

lemma lose_tracks_cap [simp]:
  "max_track_history (lose_tracks ids now tm) = max_track_history tm"
  by (induction ids now tm rule: lose_tracks.induct) (auto split: option.splits)

lemma lose_tracks_timeout [simp]:
  "track_timeout_seconds (lose_tracks ids now tm) = track_timeout_seconds tm"
  by (induction ids now tm rule: lose_tracks.induct) (auto split: option.splits)

lemma delete_eq_filter: "AList.delete k d = filter (\<lambda>(k', v). k' \<noteq> k) d"
  by (induction d) (auto simp: AList.delete_eq)

lemma filter_delete_dropped:
  assumes "\<And>v. (k, v) \<in> set d \<Longrightarrow> S v"
  shows "filter (\<lambda>(k', v). \<not> (k' \<in> K \<and> S v)) (AList.delete k d) =
         filter (\<lambda>(k', v). \<not> (k' \<in> insert k K \<and> S v)) d"
  using assms by (induction d) auto

lemma filter_kept:
  assumes "\<And>v. (k, v) \<in> set d \<Longrightarrow> \<not> S v"
  shows "filter (\<lambda>(k', v). \<not> (k' \<in> K \<and> S v)) d =
         filter (\<lambda>(k', v). \<not> (k' \<in> insert k K \<and> S v)) d"
  using assms by (induction d) auto

lemma map_of_unique:
  "distinct (keys d) \<Longrightarrow> map_of d k = Some v \<Longrightarrow> (k, v') \<in> set d \<Longrightarrow> v' = v"
  by (simp add: keys_def)

lemma lose_tracks_step:
  "map_of (active_tracks tm) tid = Some ti \<Longrightarrow>
   lose_tracks (tid # tids) now tm =
   lose_tracks tids now
     (if stale tm now ti
      then tm\<lparr>lost_tracks := insert tid (lost_tracks tm),
              active_tracks := AList.delete tid (active_tracks tm)\<rparr>
      else tm)"
  by (simp add: stale_def)

lemma stale_upd [simp]:
  "stale (tm\<lparr>lost_tracks := l, active_tracks := a\<rparr>) now ti = stale tm now ti"
  by (simp add: stale_def)

lemma lose_tracks_active:
  assumes "distinct (keys (active_tracks tm))" "distinct ids"
      and "set ids \<subseteq> set (keys (active_tracks tm))"
  shows "active_tracks (lose_tracks ids now tm) =
         filter (\<lambda>(k, ti). \<not> (k \<in> set ids \<and> stale tm now ti)) (active_tracks tm)"
  using assms
proof (induction ids arbitrary: tm)
  case Nil
  then show ?case by simp
next
  case (Cons tid tids)
  from Cons.prems obtain ti where ti: "map_of (active_tracks tm) tid = Some ti"
    by (auto simp: in_keys_iff)
  have uniq: "\<And>v. (tid, v) \<in> set (active_tracks tm) \<Longrightarrow> v = ti"
    using map_of_unique [OF Cons.prems(1) ti] .
  show ?case
  proof (cases "stale tm now ti")
    case True
    let ?tm' = "tm\<lparr>lost_tracks := insert tid (lost_tracks tm),
                     active_tracks := AList.delete tid (active_tracks tm)\<rparr>"
    have d: "distinct (keys (active_tracks ?tm'))"
      using Cons.prems(1) by (simp add: distinct_keys_delete)
    have s: "set tids \<subseteq> set (keys (active_tracks ?tm'))"
      using Cons.prems(2,3) by (auto simp: keys_delete)
    have "active_tracks (lose_tracks tids now ?tm') =
          filter (\<lambda>(k, ti). \<not> (k \<in> set tids \<and> stale tm now ti)) (AList.delete tid (active_tracks tm))"
      using Cons.IH [OF d _ s] Cons.prems(2) by simp
    also have "\<dots> = filter (\<lambda>(k, ti). \<not> (k \<in> insert tid (set tids) \<and> stale tm now ti)) (active_tracks tm)"
      by (rule filter_delete_dropped) (use uniq True in blast)
    finally have "active_tracks (lose_tracks tids now ?tm') =
          filter (\<lambda>(k, ti). \<not> (k \<in> set (tid # tids) \<and> stale tm now ti)) (active_tracks tm)"
      by simp
    moreover have "lose_tracks (tid # tids) now tm = lose_tracks tids now ?tm'"
      using True by (simp only: lose_tracks_step [OF ti] if_True)
    ultimately show ?thesis by (simp only:)
  next
    case False
    have "active_tracks (lose_tracks tids now tm) =
          filter (\<lambda>(k, ti). \<not> (k \<in> set tids \<and> stale tm now ti)) (active_tracks tm)"
      using Cons.IH [OF Cons.prems(1)] Cons.prems(2,3) by simp
    also have "\<dots> = filter (\<lambda>(k, ti). \<not> (k \<in> insert tid (set tids) \<and> stale tm now ti)) (active_tracks tm)"
      by (rule filter_kept) (use uniq False in blast)
    finally have "active_tracks (lose_tracks tids now tm) =
          filter (\<lambda>(k, ti). \<not> (k \<in> set (tid # tids) \<and> stale tm now ti)) (active_tracks tm)"
      by simp
    moreover have "lose_tracks (tid # tids) now tm = lose_tracks tids now tm"
      using False by (simp only: lose_tracks_step [OF ti] if_False)
    ultimately show ?thesis by (simp only:)
  qed
qed

lemma lose_tracks_lost:
  assumes "distinct (keys (active_tracks tm))" "distinct ids"
      and "set ids \<subseteq> set (keys (active_tracks tm))"
  shows "lost_tracks (lose_tracks ids now tm) =
         lost_tracks tm \<union> {k \<in> set ids. \<exists>ti. map_of (active_tracks tm) k = Some ti \<and> stale tm now ti}"
  using assms
proof (induction ids arbitrary: tm)
  case Nil
  then show ?case by simp
next
  case (Cons tid tids)
  from Cons.prems obtain ti where ti: "map_of (active_tracks tm) tid = Some ti"
    by (auto simp: in_keys_iff)
  show ?case
  proof (cases "stale tm now ti")
    case True
    let ?tm' = "tm\<lparr>lost_tracks := insert tid (lost_tracks tm),
                     active_tracks := AList.delete tid (active_tracks tm)\<rparr>"
    have d: "distinct (keys (active_tracks ?tm'))"
      using Cons.prems(1) by (simp add: distinct_keys_delete)
    have s: "set tids \<subseteq> set (keys (active_tracks ?tm'))"
      using Cons.prems(2,3) by (auto simp: keys_delete)
    have same: "\<And>k. k \<in> set tids \<Longrightarrow> map_of (AList.delete tid (active_tracks tm)) k = map_of (active_tracks tm) k"
      using Cons.prems(2) by (auto simp: delete_conv')
    have "lost_tracks (lose_tracks tids now ?tm') =
          insert tid (lost_tracks tm) \<union> {k \<in> set tids. \<exists>ti. map_of (AList.delete tid (active_tracks tm)) k = Some ti \<and> stale tm now ti}"
      using Cons.IH [OF d _ s] Cons.prems(2) by simp
    also have "\<dots> = lost_tracks tm \<union> {k \<in> set (tid # tids). \<exists>ti. map_of (active_tracks tm) k = Some ti \<and> stale tm now ti}"
      using same ti True by auto
    finally show ?thesis using True by (simp only: lose_tracks_step [OF ti] if_True)
  next
    case False
    have "lost_tracks (lose_tracks tids now tm) =
          lost_tracks tm \<union> {k \<in> set tids. \<exists>ti. map_of (active_tracks tm) k = Some ti \<and> stale tm now ti}"
      using Cons.IH [OF Cons.prems(1)] Cons.prems(2,3) by simp
    also have "\<dots> = lost_tracks tm \<union> {k \<in> set (tid # tids). \<exists>ti. map_of (active_tracks tm) k = Some ti \<and> stale tm now ti}"
      using ti False by auto
    finally show ?thesis using False by (simp only: lose_tracks_step [OF ti] if_False)
  qed
qed

subsection \<open>The example stores\<close>

lemmas eval_tracker =
  update_tracks_def update_track_def check_lost_tracks_def keys_def
  example_frame_def example_object_def init_tracking_manager_def extract_track_info_def
  position_of_def Let_def

lemma jump_store_history:
  "track_history jump_store = [(7, [example_position 0 0 0 0, example_position 100 0 1 1])]"
  by (simp add: jump_store_def eval_tracker example_position_def)

lemma distance_x: "distance (example_position a 0 t n) (example_position b 0 t' n') = \<bar>b - a\<bar>"
  by (simp add: distance_def example_position_def)

lemma jump_not_static2: "is_track_static jump_store 7 10 2 = False"
  by (simp add: is_track_static_def jump_store_history slice_from_def distance_x)

lemma jump_store_active:
  "active_tracks jump_store = [(7, extract_track_info (example_object 7 (9/10) 100 0) 1 1)]"
  by (simp add: jump_store_def eval_tracker)

subsection \<open>Staticness\<close>






subsection \<open>Queries on an unknown id\<close>

text \<open>
  Claim C7, as amended. For an id with no track and no history, the track lookup and
  the duration query answer \<open>None\<close>, which no known id gets, and the staticness
  query answers \<open>False\<close>. All three are total functions: nothing is raised.
\<close>

theorem unknown_id_queries:
  assumes "tid \<notin> set (keys (active_tracks tm))" and "tid \<notin> set (keys (track_history tm))"
  shows "get_track_info tm tid = None \<and> get_track_duration tm tid = None \<and>
         is_track_static tm tid tol n = False \<and>
         (\<forall>k \<in> set (keys (active_tracks tm)). get_track_info tm k \<noteq> None) \<and>
         (\<forall>k \<in> set (keys (track_history tm)). get_track_duration tm k \<noteq> None)"
  using assms
  by (auto simp: in_keys_iff get_track_info_def get_track_duration_def is_track_static_def
      split: option.splits)

text \<open>Id 8 is unknown to \<open>jump_store\<close>, id 7 is known.\<close>

theorem unknown_id_queries_witness:
  "8 \<notin> set (keys (active_tracks jump_store)) \<and> 8 \<notin> set (keys (track_history jump_store)) \<and>
   get_track_info jump_store 8 = None \<and> get_track_duration jump_store 8 = None \<and>
   is_track_static jump_store 8 10 2 = False \<and>
   get_track_info jump_store 7 \<noteq> None \<and> get_track_duration jump_store 7 = Some 1"
  using unknown_id_queries [of 8 jump_store 10 2]
  by (simp add: jump_store_active jump_store_history keys_def get_track_duration_def
      example_position_def get_track_info_def)

text \<open>
  The staticness query gives an unknown id the same answer as a known track that has
  moved: \<open>False\<close> is not a signal of its own.
\<close>

theorem static_query_counterexample:
  "7 \<in> set (keys (active_tracks jump_store)) \<and> 7 \<in> set (keys (track_history jump_store)) \<and>
   8 \<notin> set (keys (active_tracks jump_store)) \<and> 8 \<notin> set (keys (track_history jump_store)) \<and>
   is_track_static jump_store 7 10 2 = is_track_static jump_store 8 10 2"
proof -
  have "is_track_static jump_store 8 10 2 = False"
    by (simp add: is_track_static_def jump_store_history)
  then show ?thesis
    by (simp add: jump_store_active jump_not_static2 jump_store_history keys_def)
qed

subsection \<open>The history cap\<close>

lemma set_update_subset: "set (AList.update k v al) \<subseteq> insert (k, v) (set al)"
  by (induction al) auto

lemma update_track_history_shape:
  "track_history (update_track tid ti tm) =
     (case map_of (track_history (update_track tid ti tm)) tid of
        None \<Rightarrow> track_history tm
      | Some h' \<Rightarrow> AList.update tid h' (track_history tm))"
  by (simp add: update_track_def Let_def update_conv' split: option.splits)

lemma update_track_bounded:
  assumes "1 \<le> max_track_history tm" and "history_bounded tm"
  shows "history_bounded (update_track tid ti tm)"
proof (cases "map_of (track_history (update_track tid ti tm)) tid")
  case None
  then have "track_history (update_track tid ti tm) = track_history tm"
    using update_track_history_shape [of tid ti tm] by simp
  with assms(2) show ?thesis by (simp add: history_bounded_def)
next
  case (Some h')
  from update_track_history_capped [OF assms(1) Some]
  have len: "int (length h') \<le> max_track_history tm" by blast
  have "track_history (update_track tid ti tm) = AList.update tid h' (track_history tm)"
    using update_track_history_shape [of tid ti tm] Some by simp
  then have "set (track_history (update_track tid ti tm)) \<subseteq> insert (tid, h') (set (track_history tm))"
    using set_update_subset [of tid h' "track_history tm"] by simp
  with len assms(2) show ?thesis by (auto simp: history_bounded_def)
qed

lemma process_objects_bounded:
  "1 \<le> max_track_history tm \<Longrightarrow> history_bounded tm \<Longrightarrow>
   history_bounded (fst (process_objects objs t n (tm, ids)))"
  by (induction objs t n "(tm, ids)" arbitrary: tm ids rule: process_objects.induct)
     (auto simp: update_track_bounded)

lemma update_tracks_alt:
  "update_tracks fm now tm =
     check_lost_tracks (snd (process_objects (obj_meta_list fm) now (frame_num fm) (tm, {}))) now
       (fst (process_objects (obj_meta_list fm) now (frame_num fm) (tm, {})))"
  by (simp add: update_tracks_def split: prod.splits)

lemma update_tracks_history:
  "track_history (update_tracks fm now tm) =
   track_history (fst (process_objects (obj_meta_list fm) now (frame_num fm) (tm, {})))"
  by (simp add: update_tracks_alt check_lost_tracks_def)

lemma update_tracks_cap [simp]:
  "max_track_history (update_tracks fm now tm) = max_track_history tm"
  by (simp add: update_tracks_alt check_lost_tracks_def)

lemma update_tracks_bounded:
  assumes "1 \<le> max_track_history tm" and "history_bounded tm"
  shows "history_bounded (update_tracks fm now tm)"
  using process_objects_bounded [OF assms, of "obj_meta_list fm" now "frame_num fm" "{}"]
  by (simp add: history_bounded_def update_tracks_history)

lemma ingest_frames_bounded:
  "1 \<le> max_track_history tm \<Longrightarrow> history_bounded tm \<Longrightarrow>
   history_bounded (ingest_frames fs tm) \<and>
   max_track_history (ingest_frames fs tm) = max_track_history tm"
  unfolding ingest_frames_def
  by (induction fs arbitrary: tm) (auto simp: update_tracks_bounded)

text \<open>
  Claim C4. With a cap of at least 1 (the constructor sets 100), the history that
  \<^verbatim>\<open>_update_track\<close> leaves for the id is the most recent entries, up to the cap, of the
  prior history followed by the new sample: its length is within the cap, the oldest
  entries are the ones dropped and the order is kept. Ingesting a frame keeps every
  history within the cap; so after any sequence of frames ingested by a store fresh
  from the constructor, every history has at most 100 samples.
\<close>

theorem history_capped:
  assumes "1 \<le> max_track_history tm"
  shows "(\<forall>h'. map_of (track_history (update_track tid ti tm)) tid = Some h' \<longrightarrow>
            (\<exists>h. prior_history tm tid = Some h \<and>
                 h' = most_recent (nat (max_track_history tm)) (h @ [position_of ti])) \<and>
            int (length h') \<le> max_track_history tm) \<and>
         (history_bounded tm \<longrightarrow> history_bounded (update_tracks fm now tm)) \<and>
         history_bounded (ingest_frames fs init_tracking_manager) \<and>
         max_track_history (ingest_frames fs init_tracking_manager) = 100"
proof -
  have c: "1 \<le> max_track_history init_tracking_manager"
    and b: "history_bounded init_tracking_manager"
    and m: "max_track_history init_tracking_manager = 100"
    by (simp_all add: init_tracking_manager_def history_bounded_def)
  have "history_bounded (ingest_frames fs init_tracking_manager) \<and>
        max_track_history (ingest_frames fs init_tracking_manager) = 100"
    using ingest_frames_bounded [OF c b, of fs] m by simp
  with update_track_history_capped [OF assms] update_tracks_bounded [OF assms]
  show ?thesis by blast
qed

text \<open>With a cap of 2 and two samples stored, a third sample pushes the first one out.\<close>

theorem history_capped_witness:
  "1 \<le> max_track_history capped_store \<and> history_bounded capped_store \<and>
   map_of (track_history (update_track 7
       (extract_track_info (example_object 7 (9/10) 200 0) 2 2) capped_store)) 7 =
     Some [example_position 100 0 1 1, example_position 200 0 2 2] \<and>
   history_bounded
     (update_tracks (example_frame [example_object 7 (9/10) 200 0] 2) 2 capped_store)"
proof -
  have c: "1 \<le> max_track_history capped_store"
    by (simp add: capped_store_def)
  have b: "history_bounded capped_store"
    by (simp add: history_bounded_def capped_store_def jump_store_history)
  have p: "prior_history capped_store 7 =
             Some [example_position 0 0 0 0, example_position 100 0 1 1]"
    by (simp add: prior_history_def capped_store_def jump_store_active jump_store_history
        keys_def)
  from history_capped [OF c, of 7 _ _ 2 "[]"] b
  have "history_bounded
     (update_tracks (example_frame [example_object 7 (9/10) 200 0] 2) 2 capped_store)"
    by blast
  moreover have "map_of (track_history (update_track 7
       (extract_track_info (example_object 7 (9/10) 200 0) 2 2) capped_store)) 7 =
     Some [example_position 100 0 1 1, example_position 200 0 2 2]"
    unfolding update_track_history_same p
    by (simp add: capped_store_def slice_from_def position_of_def
        extract_track_info_def example_object_def example_position_def)
  ultimately show ?thesis using c b by simp
qed

subsection \<open>Frames without detections\<close>

lemma process_objects_unreadable:
  "present_objects objs = [] \<Longrightarrow> process_objects objs t n (tm, ids) = (tm, ids)"
  by (induction objs) (auto split: option.splits)

lemma check_lost_tracks_active:
  assumes "distinct (keys (active_tracks tm))"
  shows "active_tracks (check_lost_tracks cur now tm) =
         filter (\<lambda>(k, ti). \<not> (k \<notin> cur \<and> stale tm now ti)) (active_tracks tm)"
proof -
  let ?ids = "filter (\<lambda>k. k \<notin> cur) (keys (active_tracks tm))"
  have "active_tracks (lose_tracks ?ids now tm) =
        filter (\<lambda>(k, ti). \<not> (k \<in> set ?ids \<and> stale tm now ti)) (active_tracks tm)"
    using assms by (intro lose_tracks_active) auto
  also have "\<dots> = filter (\<lambda>(k, ti). \<not> (k \<notin> cur \<and> stale tm now ti)) (active_tracks tm)"
    by (rule filter_cong) (auto simp: keys_def intro: rev_image_eqI)
  finally show ?thesis by (simp add: check_lost_tracks_def)
qed

lemma check_lost_tracks_lost:
  assumes "distinct (keys (active_tracks tm))"
  shows "lost_tracks (check_lost_tracks cur now tm) =
         lost_tracks tm \<union>
         {k. k \<notin> cur \<and> (\<exists>ti. map_of (active_tracks tm) k = Some ti \<and> stale tm now ti)}"
proof -
  let ?ids = "filter (\<lambda>k. k \<notin> cur) (keys (active_tracks tm))"
  have "lost_tracks (lose_tracks ?ids now tm) =
        lost_tracks tm \<union>
        {k \<in> set ?ids. \<exists>ti. map_of (active_tracks tm) k = Some ti \<and> stale tm now ti}"
    using assms by (intro lose_tracks_lost) auto
  also have "{k \<in> set ?ids. \<exists>ti. map_of (active_tracks tm) k = Some ti \<and> stale tm now ti} =
        {k. k \<notin> cur \<and> (\<exists>ti. map_of (active_tracks tm) k = Some ti \<and> stale tm now ti)}"
    by (auto simp: in_keys_iff)
  finally show ?thesis by (simp add: check_lost_tracks_def)
qed

lemma update_tracks_timeout [simp]:
  "track_timeout_seconds (update_tracks fm now tm) = track_timeout_seconds tm"
  by (simp add: update_tracks_alt check_lost_tracks_def)

lemma check_lost_tracks_rest [simp]:
  "track_history (check_lost_tracks cur now tm) = track_history tm"
  "max_track_history (check_lost_tracks cur now tm) = max_track_history tm"
  "track_timeout_seconds (check_lost_tracks cur now tm) = track_timeout_seconds tm"
  by (simp_all add: check_lost_tracks_def)

text \<open>
  Claim C9, as amended. Ingesting a frame without readable detections creates and
  updates no track and leaves every history as it is; it removes exactly the active
  tracks whose last observation is more than the timeout old, recording them as lost.
  When no active track is that old, the store is unchanged.
\<close>

theorem empty_frame_effect:
  assumes "distinct (keys (active_tracks tm))"
      and "present_objects (obj_meta_list fm) = []"
  shows "track_history (update_tracks fm now tm) = track_history tm \<and>
         active_tracks (update_tracks fm now tm) =
           filter (\<lambda>(tid, ti). \<not> stale tm now ti) (active_tracks tm) \<and>
         lost_tracks (update_tracks fm now tm) =
           lost_tracks tm \<union>
           {tid. \<exists>ti. map_of (active_tracks tm) tid = Some ti \<and> stale tm now ti} \<and>
         ((\<forall>(tid, ti) \<in> set (active_tracks tm). \<not> stale tm now ti) \<longrightarrow>
            update_tracks fm now tm = tm)"
proof -
  have u: "update_tracks fm now tm = check_lost_tracks {} now tm"
    using assms(2) by (simp add: update_tracks_alt process_objects_unreadable)
  have a: "active_tracks (update_tracks fm now tm) =
           filter (\<lambda>(tid, ti). \<not> stale tm now ti) (active_tracks tm)"
    using check_lost_tracks_active [OF assms(1), of "{}" now] by (simp add: u)
  have l: "lost_tracks (update_tracks fm now tm) =
           lost_tracks tm \<union>
           {tid. \<exists>ti. map_of (active_tracks tm) tid = Some ti \<and> stale tm now ti}"
    using check_lost_tracks_lost [OF assms(1), of "{}" now] by (simp add: u)
  have "update_tracks fm now tm = tm"
    if none: "\<forall>(tid, ti) \<in> set (active_tracks tm). \<not> stale tm now ti"
  proof -
    have f: "filter (\<lambda>(tid, ti). \<not> stale tm now ti) (active_tracks tm) = active_tracks tm"
      using none by (auto simp: filter_id_conv)
    have e: "{tid. \<exists>ti. map_of (active_tracks tm) tid = Some ti \<and> stale tm now ti} = {}"
      using none by (auto dest: map_of_SomeD)
    from a have a': "active_tracks (check_lost_tracks {} now tm) = active_tracks tm"
      unfolding u f .
    from l have l': "lost_tracks (check_lost_tracks {} now tm) = lost_tracks tm"
      unfolding u e by simp
    from a' l' show ?thesis
      unfolding u by (intro tracking_manager.equality) simp_all
  qed
  with a l show ?thesis by (simp add: u)
qed

lemma jump_store_timeout: "track_timeout_seconds jump_store = 30"
  by (simp add: jump_store_def update_tracks_timeout init_tracking_manager_def)

text \<open>
  An empty frame 19 seconds after the last observation changes nothing; one 31 seconds
  after it removes the track.
\<close>

theorem empty_frame_effect_witness:
  "distinct (keys (active_tracks jump_store)) \<and>
   present_objects (obj_meta_list (example_frame [] 2)) = [] \<and>
   update_tracks (example_frame [] 2) 20 jump_store = jump_store \<and>
   active_tracks (update_tracks (example_frame [] 2) 32 jump_store) = []"
proof -
  have d: "distinct (keys (active_tracks jump_store))"
    by (simp add: jump_store_active keys_def)
  have p: "present_objects (obj_meta_list (example_frame [] 2)) = []"
    by (simp add: example_frame_def)
  have "\<forall>(tid, ti) \<in> set (active_tracks jump_store). \<not> stale jump_store 20 ti"
    by (simp add: jump_store_active stale_def jump_store_timeout extract_track_info_def)
  with empty_frame_effect [OF d p, of 20]
  have "update_tracks (example_frame [] 2) 20 jump_store = jump_store" by blast
  moreover from empty_frame_effect [OF d p, of 32]
  have "active_tracks (update_tracks (example_frame [] 2) 32 jump_store) = []"
    by (simp add: jump_store_active stale_def jump_store_timeout extract_track_info_def)
  ultimately show ?thesis using d p by simp
qed

text \<open>An empty frame 31 seconds after the last observation of id 7 removes its track.\<close>

theorem empty_frame_counterexample:
  "obj_meta_list (example_frame [] 2) = [] \<and>
   keys (get_active_tracks jump_store) = [7] \<and>
   keys (get_active_tracks (update_tracks (example_frame [] 2) 32 jump_store)) = []"
  by (simp add: get_active_tracks_def jump_store_def eval_tracker)

subsection \<open>Records are not validated\<close>

lemma lose_tracks_active_other:
  "k \<notin> set ids \<Longrightarrow>
   map_of (active_tracks (lose_tracks ids now tm)) k = map_of (active_tracks tm) k"
  by (induction ids now tm rule: lose_tracks.induct)
     (auto simp: delete_conv' split: option.splits)

lemma check_lost_tracks_current:
  "k \<in> cur \<Longrightarrow>
   map_of (active_tracks (check_lost_tracks cur now tm)) k = map_of (active_tracks tm) k"
  by (simp add: check_lost_tracks_def lose_tracks_active_other)

lemma process_objects_keys:
  "set (keys (active_tracks (fst (process_objects objs t n (tm, ids))))) =
   set (keys (active_tracks tm)) \<union> object_id ` set (present_objects objs)"
  by (induction objs t n "(tm, ids)" arbitrary: tm ids rule: process_objects.induct)
     (auto simp: update_track_active keys_update)

lemma update_track_have_history:
  "tracks_have_history tm \<Longrightarrow> tracks_have_history (update_track tid ti tm)"
  unfolding tracks_have_history_def
  by (auto simp: update_track_def Let_def keys_update in_keys_iff update_conv'
      split: option.splits if_splits)

lemma prior_history_Some:
  "tracks_have_history tm \<Longrightarrow> \<exists>h. prior_history tm tid = Some h"
  by (auto simp: tracks_have_history_def prior_history_def in_keys_iff subset_iff)

lemma update_track_sampled:
  assumes "1 \<le> max_track_history tm" and "tracks_have_history tm"
  shows "sampled_at (update_track tid ti tm) tid (timestamp ti)"
proof -
  from prior_history_Some [OF assms(2)] obtain h where h: "prior_history tm tid = Some h"
    by blast
  then obtain h' where h': "map_of (track_history (update_track tid ti tm)) tid = Some h'"
    by (simp add: update_track_history_same)
  from update_track_history_capped [OF assms(1) h'] h
  have "h' = most_recent (nat (max_track_history tm)) (h @ [position_of ti])" by simp
  with assms(1) have "h' \<noteq> [] \<and> last h' = position_of ti"
    by (simp add: most_recent_def)
  with h' show ?thesis by (simp add: sampled_at_def position_of_def)
qed

lemma update_track_sampled_other:
  "k \<noteq> tid \<Longrightarrow> sampled_at (update_track tid ti tm) k t = sampled_at tm k t"
  by (simp add: sampled_at_def update_track_history_other)

lemma process_objects_sampled:
  assumes "1 \<le> max_track_history tm" and "tracks_have_history tm"
      and "sampled_at tm k t \<or> k \<in> object_id ` set (present_objects objs)"
  shows "sampled_at (fst (process_objects objs t n (tm, ids))) k t"
  using assms
proof (induction objs t n "(tm, ids)" arbitrary: tm ids rule: process_objects.induct)
  case (1 current_time fnum tm ids)
  then show ?case by simp
next
  case (2 objs current_time fnum tm ids)
  then show ?case by simp
next
  case (3 om objs current_time fnum tm ids)
  let ?tm' = "update_track (object_id om) (extract_track_info om current_time fnum) tm"
  have "sampled_at ?tm' k current_time \<or> k \<in> object_id ` set (present_objects objs)"
  proof (cases "k = object_id om")
    case True
    then show ?thesis
      using update_track_sampled [OF "3.prems"(1,2), of "object_id om" "extract_track_info om current_time fnum"]
      by (simp add: extract_track_info_def)
  next
    case False
    with "3.prems"(3) show ?thesis by (auto simp: update_track_sampled_other)
  qed
  moreover have "1 \<le> max_track_history ?tm'" using "3.prems"(1) by simp
  moreover have "tracks_have_history ?tm'" using "3.prems"(2) by (rule update_track_have_history)
  ultimately show ?case using "3.hyps" by simp
qed

lemma process_objects_readable:
  "process_objects objs t n (tm, ids) = process_objects (map Some (present_objects objs)) t n (tm, ids)"
  by (induction objs t n "(tm, ids)" arbitrary: tm ids rule: process_objects.induct) auto

text \<open>
  Claim C6, as amended. The ingestion validates nothing: every readable record of a
  frame, whatever its box dimensions and confidence, leaves an active track for its id
  and a history that ends with a sample of this frame. Only unreadable list entries
  are skipped, and skipping them does not change what the other records do.
\<close>

theorem every_record_processed:
  assumes "1 \<le> max_track_history tm" and "tracks_have_history tm"
      and "om \<in> set (present_objects (obj_meta_list fm))"
  shows "object_id om \<in> set (keys (get_active_tracks (update_tracks fm now tm))) \<and>
         sampled_at (update_tracks fm now tm) (object_id om) now \<and>
         update_tracks fm now tm =
           update_tracks (fm\<lparr>obj_meta_list := map Some (present_objects (obj_meta_list fm))\<rparr>) now tm"
proof -
  let ?p = "process_objects (obj_meta_list fm) now (frame_num fm) (tm, {})"
  have cur: "object_id om \<in> snd ?p"
    using assms(3) by (simp add: process_objects_ids)
  have "object_id om \<in> set (keys (active_tracks (fst ?p)))"
    using assms(3) by (simp add: process_objects_keys)
  then have "map_of (active_tracks (fst ?p)) (object_id om) \<noteq> None"
    by (simp add: in_keys_iff)
  then have 1: "object_id om \<in> set (keys (get_active_tracks (update_tracks fm now tm)))"
    using check_lost_tracks_current [OF cur, of now "fst ?p"]
    by (simp add: update_tracks_alt in_keys_iff get_active_tracks_def)
  have "sampled_at (fst ?p) (object_id om) now"
    using assms by (intro process_objects_sampled) auto
  then have 2: "sampled_at (update_tracks fm now tm) (object_id om) now"
    by (simp add: sampled_at_def update_tracks_history)
  have 3: "update_tracks fm now tm =
           update_tracks (fm\<lparr>obj_meta_list := map Some (present_objects (obj_meta_list fm))\<rparr>) now tm"
    using process_objects_readable [of "obj_meta_list fm" now "frame_num fm" tm "{}"]
    by (simp add: update_tracks_def)
  from 1 2 3 show ?thesis by blast
qed

lemma bad_store:
  "update_tracks (example_frame [bad_object] 0) 5 init_tracking_manager =
   \<lparr>active_tracks = [(9, extract_track_info bad_object 5 0)],
    track_history = [(9, [example_position (- 5) (- 5) 5 0])],
    lost_tracks = {}, max_track_history = 100, track_timeout_seconds = 30\<rparr>"
  by (simp add: eval_tracker bad_object_def example_position_def)

text \<open>The record with negative dimensions and confidence 1.5, ingested by a new store.\<close>

theorem every_record_processed_witness:
  "1 \<le> max_track_history init_tracking_manager \<and> tracks_have_history init_tracking_manager \<and>
   bad_object \<in> set (present_objects (obj_meta_list (example_frame [bad_object] 0))) \<and>
   object_id bad_object \<in>
     set (keys (get_active_tracks (update_tracks (example_frame [bad_object] 0) 5 init_tracking_manager))) \<and>
   sampled_at (update_tracks (example_frame [bad_object] 0) 5 init_tracking_manager)
     (object_id bad_object) 5"
  using every_record_processed [of init_tracking_manager bad_object "example_frame [bad_object] 0" 5]
  by (simp add: init_tracking_manager_def tracks_have_history_def keys_def example_frame_def)

text \<open>
  A record with negative width and height and a confidence of 1.5 creates a track and
  a position sample.
\<close>

theorem malformed_record_counterexample:
  "bb_width (rect_params bad_object) < 0 \<and> bb_height (rect_params bad_object) < 0 \<and>
   1 < om_confidence bad_object \<and>
   keys (get_active_tracks (update_tracks (example_frame [bad_object] 0) 5 init_tracking_manager)) = [9] \<and>
   get_track_history (update_tracks (example_frame [bad_object] 0) 5 init_tracking_manager) 9 =
     [example_position (- 5) (- 5) 5 0]"
proof -
  have "bb_width (rect_params bad_object) < 0 \<and> bb_height (rect_params bad_object) < 0 \<and>
        1 < om_confidence bad_object"
    by (simp add: bad_object_def)
  then show ?thesis
    by (simp add: bad_store get_active_tracks_def get_track_history_def get_default_def keys_def)
qed

subsection \<open>Eviction of one track\<close>

lemma eviction:
  assumes "distinct (keys (active_tracks tm))"
      and "map_of (active_tracks tm) tid = Some ti"
      and "tid \<notin> frame_ids fm"
      and "stale tm now ti"
  shows "tid \<notin> set (keys (get_active_tracks (update_tracks fm now tm))) \<and>
         map_of (track_history (update_tracks fm now tm)) tid = map_of (track_history tm) tid"
proof -
  let ?p = "process_objects (obj_meta_list fm) now (frame_num fm) (tm, {})"
  have d: "distinct (keys (active_tracks (fst ?p)))"
    using assms(1) by (rule process_objects_distinct)
  have notin: "tid \<notin> object_id ` set (present_objects (obj_meta_list fm))"
    using assms(3) by (simp add: frame_ids_def)
  have m: "map_of (active_tracks (fst ?p)) tid = Some ti"
    using notin assms(2) by (simp add: process_objects_active_other)
  have cur: "tid \<notin> snd ?p"
    using notin by (simp add: process_objects_ids)
  have st: "stale (fst ?p) now = stale tm now"
    by (simp add: stale_def fun_eq_iff)
  have "active_tracks (update_tracks fm now tm) =
        filter (\<lambda>(k, ti). \<not> (k \<notin> snd ?p \<and> stale tm now ti)) (active_tracks (fst ?p))"
    using check_lost_tracks_active [OF d, of "snd ?p" now] by (simp add: update_tracks_alt st)
  moreover have "\<And>v. (tid, v) \<in> set (active_tracks (fst ?p)) \<Longrightarrow> v = ti"
    using map_of_unique [OF d m] .
  ultimately have "tid \<notin> set (keys (active_tracks (update_tracks fm now tm)))"
    using cur assms(4) by (auto simp: keys_def)
  moreover have "map_of (track_history (update_tracks fm now tm)) tid = map_of (track_history tm) tid"
    using notin by (simp add: update_tracks_history process_objects_history_other)
  ultimately show ?thesis by (simp add: get_active_tracks_def)
qed

subsection \<open>Emission\<close>

lemma call_callbacks_result:
  "call_callbacks cbs ev s =
     (None, s\<lparr>outside := deliver_once cbs ev (outside s),
              logger := logger s @ map Error_in_event_callback (failures cbs ev (outside s))\<rparr>)"
  by (induction cbs arbitrary: s) (auto simp: deliver_once_def split: prod.splits option.splits)

lemma emit_event_result:
  "emit_event ev s =
     s\<lparr>recent_events := recent_events s @ [ev],
       outside := deliver_once (event_callbacks s) ev (outside s),
       logger := logger s @ Generated_event (event_type ev) (ev_tracking_id ev) #
                   map Error_in_event_callback (failures (event_callbacks s) ev (outside s))\<rparr>"
  by (simp add: emit_event_def Let_def call_callbacks_result)



subsection \<open>Recent events\<close>

lemma slice_from_zero: "slice_from 0 xs = xs"
  by (simp add: slice_from_def)

text \<open>
  Claim C10. With limit 0 \<open>get_recent_events\<close> returns the whole buffer (so a
  non-empty list for a non-empty buffer); with a limit of at least 1 it returns the
  last \<open>min limit (length buffer)\<close> events in their order.
\<close>

theorem get_recent_events_limit:
  "get_recent_events s 0 = recent_events s \<and>
   (recent_events s \<noteq> [] \<longrightarrow> get_recent_events s 0 \<noteq> []) \<and>
   (1 \<le> limit \<longrightarrow>
      get_recent_events s limit =
        most_recent (min (nat limit) (length (recent_events s))) (recent_events s) \<and>
      length (get_recent_events s limit) = min (nat limit) (length (recent_events s)))"
proof -
  have "length xs - min n (length xs) = length xs - n" for n and xs :: "behavior_event list"
    by simp
  then show ?thesis
    by (auto simp: get_recent_events_def slice_from_zero slice_from_neg most_recent_def)
qed

lemma buffer_state_events:
  "recent_events buffer_state = [example_event 1, example_event 2, example_event 3]"
  by (simp add: buffer_state_def emit_event_result init_behavior_analyzer_def)

text \<open>A buffer of three events, asked with limits 0, 2 and 5.\<close>

theorem get_recent_events_limit_witness:
  "recent_events buffer_state \<noteq> [] \<and> (1::int) \<le> 2 \<and>
   get_recent_events buffer_state 0 = [example_event 1, example_event 2, example_event 3] \<and>
   get_recent_events buffer_state 2 = [example_event 2, example_event 3] \<and>
   get_recent_events buffer_state 5 = [example_event 1, example_event 2, example_event 3]"
  using get_recent_events_limit [of buffer_state 2] get_recent_events_limit [of buffer_state 5]
  by (simp add: buffer_state_events most_recent_def)

subsection \<open>Folds\<close>


lemma fold_invariant:
  assumes "P s" and "\<And>x s. P s \<Longrightarrow> P (f x s)"
  shows "P (fold f xs s)"
  using assms(1) by (induction xs arbitrary: s) (auto intro: assms(2))

lemma fold_field:
  assumes "\<And>x s. g (f x s) = g s"
  shows "g (fold f xs s) = g s"
  by (induction xs arbitrary: s) (simp_all add: assms)

lemma appeared_count_upds [simp]:
  "appeared_count tid (s\<lparr>last_appearance_events := a\<rparr>) = appeared_count tid s"
  "appeared_count tid (s\<lparr>last_static_events := a\<rparr>) = appeared_count tid s"
  "appeared_count tid (s\<lparr>last_moving_events := a\<rparr>) = appeared_count tid s"
  "appeared_count tid (s\<lparr>tracked_objects := b\<rparr>) = appeared_count tid s"
  "appeared_count tid (s\<lparr>recent_events := c\<rparr>) = appeared_count tid s"
  by (simp_all add: appeared_count_def)

subsection \<open>emit_event: fields\<close>

lemma emit_event_fields [simp]:
  "config (emit_event ev s) = config s"
  "tracked_objects (emit_event ev s) = tracked_objects s"
  "last_appearance_events (emit_event ev s) = last_appearance_events s"
  "last_static_events (emit_event ev s) = last_static_events s"
  "last_moving_events (emit_event ev s) = last_moving_events s"
  "event_callbacks (emit_event ev s) = event_callbacks s"
  by (simp_all add: emit_event_result)

lemma count_list_map_error [simp]:
  "count_list (map Error_in_event_callback es) (Generated_event k t) = 0"
  by (induction es) auto

lemma emit_event_count:
  "appeared_count tid (emit_event ev s) =
     appeared_count tid s + (if event_type ev = object_appeared \<and> ev_tracking_id ev = tid then 1 else 0)"
  by (simp add: appeared_count_def emit_event_result)

lemma create_event_simps [simp]:
  "event_type (create_appearance_event tid ti t) = object_appeared"
  "ev_tracking_id (create_appearance_event tid ti t) = tid"
  "event_type (create_static_event tid ti t d) = object_static"
  "ev_tracking_id (create_static_event tid ti t d) = tid"
  "event_type (create_moving_event tid ti t) = object_moving"
  "ev_tracking_id (create_moving_event tid ti t) = tid"
  by (simp_all add: create_appearance_event_def create_static_event_def create_moving_event_def)

subsection \<open>The three checks leave the configuration and the tracked objects alone\<close>

lemma appearance_step_fields [simp]:
  "config (appearance_step now item s) = config s"
  "tracked_objects (appearance_step now item s) = tracked_objects s"
  "last_static_events (appearance_step now item s) = last_static_events s"
  "last_moving_events (appearance_step now item s) = last_moving_events s"
  by (simp_all add: appearance_step_def Let_def split: prod.splits)

lemma static_step_fields [simp]:
  "config (static_step tm now k s) = config s"
  "tracked_objects (static_step tm now k s) = tracked_objects s"
  "last_appearance_events (static_step tm now k s) = last_appearance_events s"
  "last_moving_events (static_step tm now k s) = last_moving_events s"
  "appeared_count tid (static_step tm now k s) = appeared_count tid s"
  by (simp_all add: static_step_def Let_def emit_event_count split: option.splits)

lemma moving_step_fields [simp]:
  "config (moving_step tm now k s) = config s"
  "tracked_objects (moving_step tm now k s) = tracked_objects s"
  "last_appearance_events (moving_step tm now k s) = last_appearance_events s"
  "appeared_count tid (moving_step tm now k s) = appeared_count tid s"
  by (simp_all add: moving_step_def Let_def emit_event_count split: option.splits)

lemma check_static_fields [simp]:
  "config (check_static_objects tm now s) = config s"
  "tracked_objects (check_static_objects tm now s) = tracked_objects s"
  "last_appearance_events (check_static_objects tm now s) = last_appearance_events s"
  "last_moving_events (check_static_objects tm now s) = last_moving_events s"
  "appeared_count tid (check_static_objects tm now s) = appeared_count tid s"
  unfolding check_static_objects_def
  by (rule fold_field, simp)+

lemma check_moving_fields [simp]:
  "config (check_moving_objects tm now s) = config s"
  "tracked_objects (check_moving_objects tm now s) = tracked_objects s"
  "last_appearance_events (check_moving_objects tm now s) = last_appearance_events s"
  "appeared_count tid (check_moving_objects tm now s) = appeared_count tid s"
  unfolding check_moving_objects_def
  by (rule fold_field, simp)+

lemma check_appearances_fields [simp]:
  "config (check_object_appearances cur now s) = config s"
  "tracked_objects (check_object_appearances cur now s) = tracked_objects s"
  "last_static_events (check_object_appearances cur now s) = last_static_events s"
  "last_moving_events (check_object_appearances cur now s) = last_moving_events s"
  unfolding check_object_appearances_def
  by (rule fold_field, simp)+

lemma keys_simps [simp]: "keys [] = []" "keys (x # xs) = fst x # keys xs"
  by (simp_all add: keys_def)

subsection \<open>Appearance check\<close>

lemma appearance_step_other:
  "fst item \<noteq> tid \<Longrightarrow>
   appeared_count tid (appearance_step now item s) = appeared_count tid s \<and>
   map_of (last_appearance_events (appearance_step now item s)) tid =
     map_of (last_appearance_events s) tid"
  by (cases item) (simp add: appearance_step_def Let_def emit_event_count update_conv')


lemma appearances_absent:
  "tid \<notin> set (keys cur) \<Longrightarrow>
   appeared_count tid (fold (appearance_step now) cur s) = appeared_count tid s \<and>
   map_of (last_appearance_events (fold (appearance_step now) cur s)) tid =
     map_of (last_appearance_events s) tid"
proof (induction cur arbitrary: s)
  case Nil
  then show ?case by simp
next
  case (Cons item cur)
  then have "fst item \<noteq> tid" and "tid \<notin> set (keys cur)" by (auto simp: keys_def)
  with Cons.IH [of "appearance_step now item s"] appearance_step_other [of item tid now s]
  show ?case by simp
qed





subsection \<open>State pass\<close>


lemma remember_fields [simp]:
  "logger (fold (remember_step now) cur s) = logger s"
  "config (fold (remember_step now) cur s) = config s"
  "last_appearance_events (fold (remember_step now) cur s) = last_appearance_events s"
  "last_static_events (fold (remember_step now) cur s) = last_static_events s"
  "last_moving_events (fold (remember_step now) cur s) = last_moving_events s"
  by (rule fold_field, simp add: remember_step_def split: prod.splits)+

lemma forget_fields [simp]:
  "logger (fold forget_step ids s) = logger s"
  "config (fold forget_step ids s) = config s"
  by (rule fold_field, simp add: forget_step_def)+

lemma forget_other:
  "tid \<notin> set ids \<Longrightarrow>
   map_of (tracked_objects (fold forget_step ids s)) tid = map_of (tracked_objects s) tid \<and>
   map_of (last_appearance_events (fold forget_step ids s)) tid = map_of (last_appearance_events s) tid \<and>
   map_of (last_static_events (fold forget_step ids s)) tid = map_of (last_static_events s) tid \<and>
   map_of (last_moving_events (fold forget_step ids s)) tid = map_of (last_moving_events s) tid"
  by (induction ids arbitrary: s) (auto simp: forget_step_def delete_conv')

lemma forget_member:
  "tid \<in> set ids \<Longrightarrow>
   tid \<notin> set (keys (tracked_objects (fold forget_step ids s))) \<and>
   tid \<notin> set (keys (last_appearance_events (fold forget_step ids s))) \<and>
   tid \<notin> set (keys (last_static_events (fold forget_step ids s))) \<and>
   tid \<notin> set (keys (last_moving_events (fold forget_step ids s)))"
proof (induction ids arbitrary: s)
  case Nil
  then show ?case by simp
next
  case (Cons k ids)
  show ?case
  proof (cases "tid \<in> set ids")
    case True
    from Cons.IH [OF this] show ?thesis by simp
  next
    case False
    with Cons.prems have k: "k = tid" by simp
    have "map_of (tracked_objects (forget_step tid s)) tid = None"
      "map_of (last_appearance_events (forget_step tid s)) tid = None"
      "map_of (last_static_events (forget_step tid s)) tid = None"
      "map_of (last_moving_events (forget_step tid s)) tid = None"
      by (simp_all add: forget_step_def delete_conv')
    with forget_other [OF False, of "forget_step tid s"] k show ?thesis
      by (simp add: in_keys_iff)
  qed
qed

lemma update_object_states_logger [simp]:
  "logger (update_object_states cur now s) = logger s"
  "config (update_object_states cur now s) = config s"
  by (simp_all add: update_object_states_def Let_def)


lemma cleanup_fields [simp]:
  "logger (cleanup_old_events n s) = logger s"
  "config (cleanup_old_events n s) = config s"
  "tracked_objects (cleanup_old_events n s) = tracked_objects s"
  "last_appearance_events (cleanup_old_events n s) = last_appearance_events s"
  "last_static_events (cleanup_old_events n s) = last_static_events s"
  "last_moving_events (cleanup_old_events n s) = last_moving_events s"
  by (simp_all add: cleanup_old_events_def)


subsection \<open>One analysed frame\<close>

lemma analyze_frame_config [simp]:
  "config (analyze_frame tm now s) = config s"
  by (simp add: analyze_frame_def Let_def)



subsection \<open>One tracked frame, seen from one id\<close>









subsection \<open>Runs\<close>

lemma run_frames_Nil [simp]: "run_frames [] st = st"
  by (simp add: run_frames_def)

lemma run_frames_Cons [simp]: "run_frames (f # fs) st = run_frames fs (process_frame f st)"
  by (simp add: run_frames_def)

lemma process_frame_simps:
  "fst (process_frame f (tm, s)) = update_tracks (tick_frame f) (tick_track_time f) tm"
  "snd (process_frame f (tm, s)) =
     analyze_frame (update_tracks (tick_frame f) (tick_track_time f) tm) (tick_analyze_time f) s"
  by (simp_all add: process_frame_def Let_def)





lemma example_tick_simps [simp]:
  "tick_track_time (example_tick oms n t) = t"
  "tick_analyze_time (example_tick oms n t) = t"
  "frame_ids (tick_frame (example_tick oms n t)) = object_id ` set oms"
  "present_objects (obj_meta_list (tick_frame (example_tick oms n t))) = oms"
proof -
  have "present_objects (map Some oms) = oms" for oms
    by (induction oms) simp_all
  then show "tick_track_time (example_tick oms n t) = t"
    "tick_analyze_time (example_tick oms n t) = t"
    "frame_ids (tick_frame (example_tick oms n t)) = object_id ` set oms"
    "present_objects (obj_meta_list (tick_frame (example_tick oms n t))) = oms"
    by (simp_all add: example_tick_def example_frame_def frame_ids_def)
qed

lemma example_object_simps [simp]:
  "object_id (example_object tid c a b) = tid"
  "om_confidence (example_object tid c a b) = c"
  by (simp_all add: example_object_def)

lemma init_simps [simp]:
  "active_tracks init_tracking_manager = []"
  "track_timeout_seconds init_tracking_manager = 30"
  "tracked_objects (init_behavior_analyzer cfg w) = []"
  "last_appearance_events (init_behavior_analyzer cfg w) = []"
  "config (init_behavior_analyzer cfg w) = cfg"
  "logger (init_behavior_analyzer cfg w) = []"
  by (simp_all add: init_tracking_manager_def init_behavior_analyzer_def)



subsection \<open>Entries of an id that is not an active track\<close>

lemma static_step_other:
  "k \<noteq> tid \<Longrightarrow>
   map_of (last_static_events (static_step tm now k s)) tid = map_of (last_static_events s) tid"
  by (simp add: static_step_def Let_def update_conv' split: option.splits)

lemma moving_step_other:
  "k \<noteq> tid \<Longrightarrow>
   map_of (last_static_events (moving_step tm now k s)) tid = map_of (last_static_events s) tid \<and>
   map_of (last_moving_events (moving_step tm now k s)) tid = map_of (last_moving_events s) tid"
  by (simp add: moving_step_def Let_def update_conv' delete_conv' split: option.splits)

lemma static_loop_other:
  "tid \<notin> set ks \<Longrightarrow>
   map_of (last_static_events (fold (static_step tm now) ks s)) tid =
   map_of (last_static_events s) tid"
  by (induction ks arbitrary: s) (auto simp: static_step_other)

lemma moving_loop_other:
  "tid \<notin> set ks \<Longrightarrow>
   map_of (last_static_events (fold (moving_step tm now) ks s)) tid =
     map_of (last_static_events s) tid \<and>
   map_of (last_moving_events (fold (moving_step tm now) ks s)) tid =
     map_of (last_moving_events s) tid"
  by (induction ks arbitrary: s) (auto simp: moving_step_other)

lemma checks_inactive:
  fixes s :: "'w behavior_analyzer" and now :: real
  assumes "tid \<notin> set (keys (active_tracks tm))"
  defines "s3 \<equiv> check_moving_objects tm now
                  (check_static_objects tm now
                    (check_object_appearances (get_active_tracks tm) now s))"
  shows "map_of (last_appearance_events s3) tid = map_of (last_appearance_events s) tid"
    and "map_of (last_static_events s3) tid = map_of (last_static_events s) tid"
    and "map_of (last_moving_events s3) tid = map_of (last_moving_events s) tid"
    and "tracked_objects s3 = tracked_objects s"
proof -
  let ?s1 = "check_object_appearances (get_active_tracks tm) now s"
  let ?s2 = "check_static_objects tm now ?s1"
  have k: "tid \<notin> set (keys (get_active_tracks tm))"
    using assms(1) by (simp add: get_active_tracks_def)
  show "map_of (last_appearance_events s3) tid = map_of (last_appearance_events s) tid"
    using appearances_absent [OF k, of now s]
    by (simp add: s3_def check_object_appearances_def)
  have "map_of (last_static_events ?s2) tid = map_of (last_static_events ?s1) tid"
    unfolding check_static_objects_def using k by (rule static_loop_other)
  moreover have "map_of (last_static_events s3) tid = map_of (last_static_events ?s2) tid"
    unfolding s3_def check_moving_objects_def using k moving_loop_other by blast
  ultimately show "map_of (last_static_events s3) tid = map_of (last_static_events s) tid"
    by simp
  have "map_of (last_moving_events s3) tid = map_of (last_moving_events ?s2) tid"
    unfolding s3_def check_moving_objects_def using k moving_loop_other by blast
  then show "map_of (last_moving_events s3) tid = map_of (last_moving_events s) tid"
    by simp
  show "tracked_objects s3 = tracked_objects s"
    by (simp add: s3_def)
qed

lemma update_entries_other:
  "k \<noteq> tid \<Longrightarrow> (tid, st) \<in> set (AList.update k v al) \<longleftrightarrow> (tid, st) \<in> set al"
  by (induction al) auto

lemma remember_entries_other:
  "tid \<notin> set (keys cur) \<Longrightarrow>
   (tid, st) \<in> set (tracked_objects (fold (remember_step now) cur s)) \<longleftrightarrow>
   (tid, st) \<in> set (tracked_objects s)"
proof (induction cur arbitrary: s)
  case Nil
  then show ?case by simp
next
  case (Cons item cur)
  then have "fst item \<noteq> tid" and "tid \<notin> set (keys cur)" by auto
  then show ?case
    using Cons.IH [of "remember_step now item s"]
    by (cases item) (simp add: remember_step_def update_entries_other)
qed

lemma update_object_states_inactive:
  fixes s :: "'w behavior_analyzer" and now :: real
  assumes "tid \<notin> set (keys cur)"
  defines "s' \<equiv> update_object_states cur now s"
  shows "(\<exists>st. (tid, st) \<in> set (tracked_objects s) \<and> now - last_seen st > 10) \<Longrightarrow>
           tid \<notin> set (keys (tracked_objects s')) \<and>
           tid \<notin> set (keys (last_appearance_events s')) \<and>
           tid \<notin> set (keys (last_static_events s')) \<and>
           tid \<notin> set (keys (last_moving_events s'))"
    and "(\<forall>st. (tid, st) \<in> set (tracked_objects s) \<longrightarrow> now - last_seen st \<le> 10) \<Longrightarrow>
           map_of (last_appearance_events s') tid = map_of (last_appearance_events s) tid \<and>
           map_of (last_static_events s') tid = map_of (last_static_events s) tid \<and>
           map_of (last_moving_events s') tid = map_of (last_moving_events s) tid"
proof -
  let ?s1 = "fold (remember_step now) cur s"
  have mem: "tid \<in> set (inactive_objects cur now ?s1) \<longleftrightarrow>
             (\<exists>st. (tid, st) \<in> set (tracked_objects s) \<and> now - last_seen st > 10)"
  proof
    assume "tid \<in> set (inactive_objects cur now ?s1)"
    then obtain st where "(tid, st) \<in> set (tracked_objects ?s1)" "now - last_seen st > 10"
      by (auto simp: inactive_objects_def)
    then show "\<exists>st. (tid, st) \<in> set (tracked_objects s) \<and> now - last_seen st > 10"
      using remember_entries_other [OF assms(1), of st now s] by blast
  next
    assume "\<exists>st. (tid, st) \<in> set (tracked_objects s) \<and> now - last_seen st > 10"
    then obtain st where st: "(tid, st) \<in> set (tracked_objects s)" "now - last_seen st > 10"
      by blast
    then have "(tid, st) \<in> set (tracked_objects ?s1)"
      using remember_entries_other [OF assms(1), of st now s] by blast
    with st(2) assms(1) have "(tid, st) \<in> set (filter (\<lambda>(tid, obj_state).
        tid \<notin> set (keys cur) \<and> now - last_seen obj_state > 10) (tracked_objects ?s1))"
      by simp
    then have "fst (tid, st) \<in> fst ` set (filter (\<lambda>(tid, obj_state).
        tid \<notin> set (keys cur) \<and> now - last_seen obj_state > 10) (tracked_objects ?s1))"
      by (rule imageI)
    then show "tid \<in> set (inactive_objects cur now ?s1)"
      by (simp add: inactive_objects_def)
  qed
  show "tid \<notin> set (keys (tracked_objects s')) \<and>
           tid \<notin> set (keys (last_appearance_events s')) \<and>
           tid \<notin> set (keys (last_static_events s')) \<and>
           tid \<notin> set (keys (last_moving_events s'))"
    if "\<exists>st. (tid, st) \<in> set (tracked_objects s) \<and> now - last_seen st > 10"
  proof -
    from that have "tid \<in> set (inactive_objects cur now ?s1)" by (rule iffD2 [OF mem])
    from forget_member [OF this, of ?s1] show ?thesis
      by (simp add: s'_def update_object_states_def Let_def)
  qed
  show "map_of (last_appearance_events s') tid = map_of (last_appearance_events s) tid \<and>
           map_of (last_static_events s') tid = map_of (last_static_events s) tid \<and>
           map_of (last_moving_events s') tid = map_of (last_moving_events s) tid"
    if "\<forall>st. (tid, st) \<in> set (tracked_objects s) \<longrightarrow> now - last_seen st \<le> 10"
  proof -
    have "\<not> (\<exists>st. (tid, st) \<in> set (tracked_objects s) \<and> now - last_seen st > 10)"
      using that by (auto simp: not_less)
    then have "tid \<notin> set (inactive_objects cur now ?s1)"
      unfolding mem .
    from forget_other [OF this, of ?s1] show ?thesis
      by (simp add: s'_def update_object_states_def Let_def)
  qed
qed

lemma analyze_frame_inactive:
  fixes s :: "'w behavior_analyzer" and now :: real
  assumes "tid \<notin> set (keys (active_tracks tm))"
  defines "s' \<equiv> analyze_frame tm now s"
  shows "(\<exists>st. (tid, st) \<in> set (tracked_objects s) \<and> now - last_seen st > 10) \<Longrightarrow>
           tid \<notin> set (keys (tracked_objects s')) \<and>
           tid \<notin> set (keys (last_appearance_events s')) \<and>
           tid \<notin> set (keys (last_static_events s')) \<and>
           tid \<notin> set (keys (last_moving_events s'))"
    and "(\<forall>st. (tid, st) \<in> set (tracked_objects s) \<longrightarrow> now - last_seen st \<le> 10) \<Longrightarrow>
           map_of (last_appearance_events s') tid = map_of (last_appearance_events s) tid \<and>
           map_of (last_static_events s') tid = map_of (last_static_events s) tid \<and>
           map_of (last_moving_events s') tid = map_of (last_moving_events s) tid"
proof -
  let ?s3 = "check_moving_objects tm now
               (check_static_objects tm now
                 (check_object_appearances (get_active_tracks tm) now s))"
  have k: "tid \<notin> set (keys (get_active_tracks tm))"
    using assms(1) by (simp add: get_active_tracks_def)
  have s': "s' = cleanup_old_events 1000 (update_object_states (get_active_tracks tm) now ?s3)"
    by (simp add: s'_def analyze_frame_def Let_def)
  note c = checks_inactive [OF assms(1), of now s]
  show "tid \<notin> set (keys (tracked_objects s')) \<and>
           tid \<notin> set (keys (last_appearance_events s')) \<and>
           tid \<notin> set (keys (last_static_events s')) \<and>
           tid \<notin> set (keys (last_moving_events s'))"
    if "\<exists>st. (tid, st) \<in> set (tracked_objects s) \<and> now - last_seen st > 10"
    using update_object_states_inactive(1) [OF k, of ?s3 now] that c(4)
    by (simp add: s')
  show "map_of (last_appearance_events s') tid = map_of (last_appearance_events s) tid \<and>
           map_of (last_static_events s') tid = map_of (last_static_events s) tid \<and>
           map_of (last_moving_events s') tid = map_of (last_moving_events s) tid"
    if "\<forall>st. (tid, st) \<in> set (tracked_objects s) \<longrightarrow> now - last_seen st \<le> 10"
    using update_object_states_inactive(2) [OF k, of ?s3 now] that c
    by (simp add: s')
qed

text \<open>
  Claim C5, as amended. An active track that is not in the frame and whose last
  observation is more than the timeout old is removed from the active tracks by
  \<^verbatim>\<open>update_tracks\<close>, and its history stays. The analysis of that frame deletes the id's
  entries from the three debounce maps when the analyzer last saw the id active more
  than 10 seconds before; otherwise it leaves the three entries as they are.
\<close>

theorem eviction_and_cleanup:
  assumes "distinct (keys (active_tracks tm))"
      and "map_of (active_tracks tm) tid = Some ti"
      and "tid \<notin> frame_ids fm"
      and "stale tm now ti"
  shows "tid \<notin> set (keys (get_active_tracks (update_tracks fm now tm))) \<and>
         map_of (track_history (update_tracks fm now tm)) tid = map_of (track_history tm) tid \<and>
         ((\<exists>st. (tid, st) \<in> set (tracked_objects s) \<and> now' - last_seen st > 10) \<longrightarrow>
            tid \<notin> set (keys (last_appearance_events (analyze_frame (update_tracks fm now tm) now' s))) \<and>
            tid \<notin> set (keys (last_static_events (analyze_frame (update_tracks fm now tm) now' s))) \<and>
            tid \<notin> set (keys (last_moving_events (analyze_frame (update_tracks fm now tm) now' s)))) \<and>
         ((\<forall>st. (tid, st) \<in> set (tracked_objects s) \<longrightarrow> now' - last_seen st \<le> 10) \<longrightarrow>
            map_of (last_appearance_events (analyze_frame (update_tracks fm now tm) now' s)) tid =
              map_of (last_appearance_events s) tid \<and>
            map_of (last_static_events (analyze_frame (update_tracks fm now tm) now' s)) tid =
              map_of (last_static_events s) tid \<and>
            map_of (last_moving_events (analyze_frame (update_tracks fm now tm) now' s)) tid =
              map_of (last_moving_events s) tid)"
proof -
  from eviction [OF assms]
  have gone: "tid \<notin> set (keys (get_active_tracks (update_tracks fm now tm)))"
    and hist: "map_of (track_history (update_tracks fm now tm)) tid = map_of (track_history tm) tid"
    by simp_all
  from gone have k: "tid \<notin> set (keys (active_tracks (update_tracks fm now tm)))"
    by (simp add: get_active_tracks_def)
  from analyze_frame_inactive [OF k, of s now'] gone hist show ?thesis
    by blast
qed

lemma example_track_simps [simp]:
  "confidence (example_track tid t n) = 9/10"
  "timestamp (example_track tid t n) = t"
  by (simp_all add: example_track_def extract_track_info_def)

lemmas eval_analyzer =
  analyze_frame_def check_object_appearances_def appearance_step_def
  check_static_objects_def static_step_def check_moving_objects_def moving_step_def
  update_object_states_def remember_step_def inactive_objects_def forget_step_def
  cleanup_old_events_def emit_event_result get_active_tracks_def get_track_info_def
  is_track_static_def get_default_def deliver_once_def Let_def

lemma store_step_1:
  "update_tracks (example_frame [example_object 9 (9/10) 0 0] 0) 1700000000 init_tracking_manager
     = store_1"
  by (simp add: store_1_def example_track_def eval_tracker example_position_def)

lemma store_step_2:
  "update_tracks (example_frame [] 1) 1700000030 store_1 = store_1"
  by (simp add: store_1_def update_tracks_def check_lost_tracks_def keys_def example_frame_def)

lemma store_step_3:
  "update_tracks (example_frame [] 2) 1700000031 store_1 = store_3"
  by (simp add: store_1_def store_3_def update_tracks_def check_lost_tracks_def keys_def
      example_frame_def)

lemma analyzer_step_1:
  "analyze_frame store_1 1700000000 (init_behavior_analyzer default_config ()) =
   analyzer_at 1700000000"
  by (simp add: store_1_def analyzer_at_def init_behavior_analyzer_def default_config_def
      eval_analyzer)

lemma analyzer_step_2:
  "analyze_frame store_1 1700000030 (analyzer_at 1700000000) = analyzer_at 1700000030"
  by (simp add: store_1_def analyzer_at_def default_config_def eval_analyzer)

lemma analyzer_step_3:
  "analyze_frame store_3 1700000031 (analyzer_at 1700000030) = analyzer_at 1700000030"
  by (simp add: store_3_def analyzer_at_def default_config_def eval_analyzer)

lemma departure_run_result:
  "run_frames departure_ticks (init_tracking_manager, init_behavior_analyzer default_config ())
     = (store_3, analyzer_at 1700000030)"
  by (simp add: departure_ticks_def process_frame_def example_tick_def
      store_step_1 store_step_2 store_step_3 analyzer_step_1 analyzer_step_2 analyzer_step_3)

text \<open>
  Id 9 is seen once, at 1700000000. The frame at 1700000031 evicts its track, and after
  that frame's analysis the appearance debounce map still holds the id: the statistics
  count one entry.
\<close>

theorem debounce_kept_counterexample:
  "9 \<notin> frame_ids (tick_frame (example_tick [] 2 1700000031)) \<and>
   1700000031 - 1700000000 > track_timeout_seconds init_tracking_manager \<and>
   keys (get_active_tracks (fst (run_frames departure_ticks
     (init_tracking_manager, init_behavior_analyzer default_config ())))) = [] \<and>
   9 \<in> set (keys (last_appearance_events (snd (run_frames departure_ticks
     (init_tracking_manager, init_behavior_analyzer default_config ()))))) \<and>
   appearance_events_tracked (get_statistics (snd (run_frames departure_ticks
     (init_tracking_manager, init_behavior_analyzer default_config ())))) = 1"
  by (simp add: departure_run_result store_3_def analyzer_at_def get_statistics_def
      get_active_tracks_def)

text \<open>
  Id 9, last observed 31 seconds ago and last seen active by the analyzer at second
  30: analysed at second 31 its appearance stamp stays, analysed at second 41 it goes.
\<close>

theorem eviction_and_cleanup_witness:
  "distinct (keys (active_tracks store_1)) \<and>
   map_of (active_tracks store_1) 9 = Some (example_track 9 1700000000 0) \<and>
   9 \<notin> frame_ids (example_frame [] 2) \<and>
   stale store_1 1700000031 (example_track 9 1700000000 0) \<and>
   9 \<notin> set (keys (get_active_tracks (update_tracks (example_frame [] 2) 1700000031 store_1))) \<and>
   map_of (track_history (update_tracks (example_frame [] 2) 1700000031 store_1)) 9 =
     Some [example_position 0 0 1700000000 0] \<and>
   map_of (last_appearance_events (analyze_frame
       (update_tracks (example_frame [] 2) 1700000031 store_1) 1700000031
       (analyzer_at 1700000030))) 9 = Some 1700000000 \<and>
   9 \<notin> set (keys (last_appearance_events (analyze_frame
       (update_tracks (example_frame [] 2) 1700000031 store_1) 1700000041
       (analyzer_at 1700000030))))"
proof -
  have d: "distinct (keys (active_tracks store_1))"
    and m: "map_of (active_tracks store_1) 9 = Some (example_track 9 1700000000 0)"
    and h: "map_of (track_history store_1) 9 = Some [example_position 0 0 1700000000 0]"
    by (simp_all add: store_1_def)
  have f: "9 \<notin> frame_ids (example_frame [] 2)"
    by (simp add: frame_ids_def example_frame_def)
  have st: "stale store_1 1700000031 (example_track 9 1700000000 0)"
    by (simp add: stale_def store_1_def)
  have t: "tracked_objects (analyzer_at 1700000030) =
             [(9, \<lparr>os_info = example_track 9 1700000000 0, last_seen = 1700000030\<rparr>)]"
    and l: "map_of (last_appearance_events (analyzer_at 1700000030)) 9 = Some 1700000000"
    by (simp_all add: analyzer_at_def)
  have late: "\<exists>st. (9, st) \<in> set (tracked_objects (analyzer_at 1700000030)) \<and>
                1700000041 - last_seen st > 10"
    and early: "\<forall>st. (9, st) \<in> set (tracked_objects (analyzer_at 1700000030)) \<longrightarrow>
                1700000031 - last_seen st \<le> 10"
    by (simp_all add: t)
  from eviction_and_cleanup [OF d m f st, of "analyzer_at 1700000030" 1700000031] early
       eviction_and_cleanup [OF d m f st, of "analyzer_at 1700000030" 1700000041] late
  show ?thesis using d m f st h l by simp
qed

subsection \<open>Traces\<close>





lemma errors_trace [simp]:
  "moving_while_flagged tid b (map Error_in_event_callback es)"
  "flagged_after tid b (map Error_in_event_callback es) = b"
  by (induction es) auto





lemma flagged_static_upds [simp]:
  "flagged_static tid (s\<lparr>last_appearance_events := a\<rparr>) = flagged_static tid s"
  "flagged_static tid (s\<lparr>last_moving_events := a\<rparr>) = flagged_static tid s"
  "flagged_static tid (s\<lparr>last_static_events := b\<rparr>) \<longleftrightarrow> tid \<in> set (keys b)"
  "flagged_static tid (emit_event ev s) = flagged_static tid s"
  by (simp_all add: flagged_static_def)




















end
